theory Spec2Isabelle
  imports Complex_Main "HOL-Library.Word"
begin

unbundle bit_operations_syntax

section \<open>Data model\<close>

text \<open>
  The converter (\<open>SemiGraphicConverter\<close>) and the exporter (\<open>Z80Exporter\<close>) of the
  editor, embedded function by function. JavaScript numbers that hold counts, indices,
  palette indices and bit patterns are natural numbers here; the run-length scan keeps its
  tracked colour as an integer because the source starts it at \<open>-1\<close>. Bytes of a
  \<open>Uint8ClampedArray\<close> are \<open>8 word\<close>, the packed RGBA value returned by the
  image library is a \<open>32 word\<close>. A JavaScript \<open>TypeError\<close> (reading a property of
  \<open>undefined\<close>) is the value \<open>None\<close>.
\<close>

record RGBColor =
  r :: int
  g :: int
  b :: int

record SemiGraphicBlock =
  pattern :: nat
  colorCode :: nat

record SemiGraphicData =
  width :: nat
  height :: nat
  blocks :: "SemiGraphicBlock list list"

text \<open>
  The argument of \<open>convertImageDataToSemiGraphic\<close> and the result of
  \<open>CliImageLoader.loadImage\<close>: \<open>{ width, height, data }\<close>. The two size fields are
  named \<open>pixelWidth\<close> and \<open>pixelHeight\<close> to keep them apart from the grid's.
\<close>

record ImageData =
  pixelWidth :: nat
  pixelHeight :: nat
  data :: "8 word list"

text \<open>
  What the code uses of an image decoded by the external library: \<open>image.bitmap.width\<close>,
  \<open>image.bitmap.height\<close> and \<open>image.getPixelColor(x, y)\<close>, a packed
  \<open>0xRRGGBBAA\<close> value.
\<close>

record JimpImage =
  bitmapWidth :: nat
  bitmapHeight :: nat
  getPixelColor :: "nat \<Rightarrow> nat \<Rightarrow> 32 word"

record ImageResource =
  resourceId :: string
  filename :: string

record ProjectData =
  images :: "ImageResource list"

datatype ImageElement = MockImageElement ImageData | HTMLImageElement

datatype error = BrowserConversionUnsupported

section \<open>Semi-graphic converter\<close>

definition DIGITAL_COLORS :: "RGBColor list" where
  "DIGITAL_COLORS =
    [\<lparr>r = 0, g = 0, b = 0\<rparr>,
     \<lparr>r = 0, g = 0, b = 255\<rparr>,
     \<lparr>r = 255, g = 0, b = 0\<rparr>,
     \<lparr>r = 255, g = 0, b = 255\<rparr>,
     \<lparr>r = 0, g = 255, b = 0\<rparr>,
     \<lparr>r = 0, g = 255, b = 255\<rparr>,
     \<lparr>r = 255, g = 255, b = 0\<rparr>,
     \<lparr>r = 255, g = 255, b = 255\<rparr>]"

subsection \<open>findNearestColor\<close>

text \<open>
  \<open>Math.sqrt(Math.pow(dr, 2) + Math.pow(dg, 2) + Math.pow(db, 2))\<close>, over the reals.
  The channels the converter passes are bytes, so the sum of squares is an integer below
  \<open>2^18\<close> and the double-precision square root orders these sums as the real one does.
\<close>

definition colorDistance :: "RGBColor \<Rightarrow> RGBColor \<Rightarrow> real" where
  "colorDistance rgb color =
     sqrt ((of_int (r rgb - r color))\<^sup>2 + (of_int (g rgb - g color))\<^sup>2
           + (of_int (b rgb - b color))\<^sup>2)"

text \<open>\<open>distance < minDistance\<close>, where \<open>None\<close> is the initial \<open>Infinity\<close>.\<close>

definition belowMin :: "real \<Rightarrow> real option \<Rightarrow> bool" where
  "belowMin distance minDistance =
     (case minDistance of None \<Rightarrow> True | Some m \<Rightarrow> distance < m)"

text \<open>The loop body; the state is \<open>(minDistance, nearestIndex)\<close>.\<close>

definition nearestStep :: "RGBColor \<Rightarrow> real option \<times> nat \<Rightarrow> nat \<Rightarrow> real option \<times> nat" where
  "nearestStep rgb st i =
     (let color = DIGITAL_COLORS ! i;
          distance = colorDistance rgb color
      in if belowMin distance (fst st) then (Some distance, i) else st)"

definition findNearestColor :: "RGBColor \<Rightarrow> nat" where
  "findNearestColor rgb =
     snd (foldl (nearestStep rgb) (None, 0) [0..<length DIGITAL_COLORS])"

text \<open>
  The same loop on the integer sum of squares, without the square root: the form in
  which \<open>findNearestColor\<close> is evaluated (lemma \<open>findNearestColor_code\<close>).
\<close>

definition squaredDistance :: "RGBColor \<Rightarrow> RGBColor \<Rightarrow> int" where
  "squaredDistance rgb color =
     (r rgb - r color)\<^sup>2 + (g rgb - g color)\<^sup>2 + (b rgb - b color)\<^sup>2"

definition nearestStepSq :: "RGBColor \<Rightarrow> int option \<times> nat \<Rightarrow> nat \<Rightarrow> int option \<times> nat" where
  "nearestStepSq rgb st i =
     (let d = squaredDistance rgb (DIGITAL_COLORS ! i)
      in if (case fst st of None \<Rightarrow> True | Some m \<Rightarrow> d < m) then (Some d, i) else st)"

text \<open>A state of the integer loop, read as a state of the source's loop.\<close>

definition sqState :: "int option \<times> nat \<Rightarrow> real option \<times> nat" where
  "sqState st = (map_option (\<lambda>d. sqrt (of_int d)) (fst st), snd st)"

subsection \<open>getMostFrequentColor\<close>

text \<open>
  \<open>frequency[color] = (frequency[color] || 0) + 1\<close> on an object whose keys are
  array indices: \<open>Object.entries\<close> lists such keys in ascending numeric order, so the
  object is an association list kept sorted by key.
\<close>

fun countVote :: "nat \<Rightarrow> (nat \<times> nat) list \<Rightarrow> (nat \<times> nat) list" where
  "countVote color [] = [(color, 1)]"
| "countVote color ((k, n) # rest) =
     (if color = k then (k, n + 1) # rest
      else if color < k then (color, 1) # (k, n) # rest
      else (k, n) # countVote color rest)"

definition frequencyOf :: "nat list \<Rightarrow> (nat \<times> nat) list" where
  "frequencyOf colors =
     foldl (\<lambda>frequency color. if color \<noteq> 0 then countVote color frequency else frequency)
       [] colors"

text \<open>The second loop's body; the state is \<open>(maxCount, mostFrequent)\<close>.\<close>

definition pickMax :: "nat \<times> nat \<Rightarrow> nat \<times> nat \<Rightarrow> nat \<times> nat" where
  "pickMax st entry =
     (let color = fst entry; count = snd entry
      in if count > fst st then (count, color) else st)"

definition getMostFrequentColor :: "nat list \<Rightarrow> nat" where
  "getMostFrequentColor colors =
     (if length colors = 0 then 0
      else snd (foldl pickMax (0, 0) (frequencyOf colors)))"

subsection \<open>The direct RGBA-buffer path\<close>

text \<open>\<open>imageData.data[i]\<close>: \<open>undefined\<close> past the end of the array.\<close>

definition byteAt :: "8 word list \<Rightarrow> nat \<Rightarrow> 8 word option" where
  "byteAt bytes i = (if i < length bytes then Some (bytes ! i) else None)"

text \<open>
  \<open>findNearestColor({ r, g, b })\<close> on what \<open>byteAt\<close> returned. With an
  \<open>undefined\<close> channel every distance is \<open>NaN\<close>, no comparison succeeds and the
  initial index 0 is returned.
\<close>

definition nearestOfBytes :: "8 word option \<Rightarrow> 8 word option \<Rightarrow> 8 word option \<Rightarrow> nat" where
  "nearestOfBytes rv gv bv =
     (case (rv, gv, bv) of
        (Some r', Some g', Some b') \<Rightarrow> findNearestColor \<lparr>r = uint r', g = uint g', b = uint b'\<rparr>
      | _ \<Rightarrow> 0)"

text \<open>\<open>a < 128\<close>; false for \<open>undefined\<close>.\<close>

definition alphaBelow128 :: "8 word option \<Rightarrow> bool" where
  "alphaBelow128 a = (case a of Some av \<Rightarrow> av < 128 | None \<Rightarrow> False)"

definition bitIndex :: "nat \<Rightarrow> nat \<Rightarrow> nat" where
  "bitIndex dx dy = (if dx = 0 then dy else 4 + dy)"

text \<open>
  The body of the two inner loops of \<open>convertImageDataToSemiGraphic\<close> for the block
  \<open>(x, y)\<close>; the state is \<open>(blockColors, pattern)\<close>.
\<close>

definition imageDataPixel ::
  "ImageData \<Rightarrow> nat \<Rightarrow> nat \<Rightarrow> nat list \<times> nat \<Rightarrow> nat \<Rightarrow> nat \<Rightarrow> nat list \<times> nat" where
  "imageDataPixel imageData x y st dy dx =
     (let blockColors = fst st; pattern = snd st;
          originalWidth = pixelWidth imageData; originalHeight = pixelHeight imageData;
          pixelX = x * 2 + dx; pixelY = y * 4 + dy
      in if pixelX < originalWidth \<and> pixelY < originalHeight then
           (let index = (pixelY * originalWidth + pixelX) * 4;
                rv = byteAt (data imageData) index;
                gv = byteAt (data imageData) (index + 1);
                bv = byteAt (data imageData) (index + 2);
                a = byteAt (data imageData) (index + 3)
            in if alphaBelow128 a then (blockColors @ [0], pattern)
               else
                 (let colorIndex = nearestOfBytes rv gv bv
                  in (blockColors @ [colorIndex],
                      if colorIndex \<noteq> 0 then pattern OR push_bit (bitIndex dx dy) 1
                      else pattern)))
         else (blockColors @ [0], pattern))"

definition imageDataBlock :: "ImageData \<Rightarrow> nat \<Rightarrow> nat \<Rightarrow> SemiGraphicBlock" where
  "imageDataBlock imageData x y =
     (let st = foldl (\<lambda>st dy. foldl (\<lambda>st dx. imageDataPixel imageData x y st dy dx) st [0..<2])
                 ([], 0) [0..<4];
          representativeColor = getMostFrequentColor (fst st)
      in \<lparr>pattern = snd st, colorCode = representativeColor\<rparr>)"

text \<open>\<open>Math.ceil(n / k)\<close> for natural \<open>n\<close> and positive \<open>k\<close>.\<close>

definition ceilDiv :: "nat \<Rightarrow> nat \<Rightarrow> nat" where
  "ceilDiv n k = (n + k - 1) div k"

definition convertImageDataToSemiGraphic :: "ImageData \<Rightarrow> SemiGraphicData" where
  "convertImageDataToSemiGraphic imageData =
     (let originalWidth = pixelWidth imageData; originalHeight = pixelHeight imageData;
          adjustedWidth = ceilDiv originalWidth 2 * 2;
          adjustedHeight = ceilDiv originalHeight 4 * 4;
          semiWidth = adjustedWidth div 2;
          semiHeight = adjustedHeight div 4
      in \<lparr>width = semiWidth, height = semiHeight,
          blocks = map (\<lambda>y. map (\<lambda>x. imageDataBlock imageData x y) [0..<semiWidth])
                     [0..<semiHeight]\<rparr>)"

definition convertImageToSemiGraphic :: "ImageElement \<Rightarrow> error + SemiGraphicData" where
  "convertImageToSemiGraphic imageElement =
     (case imageElement of
        MockImageElement imageData \<Rightarrow> Inr (convertImageDataToSemiGraphic imageData)
      | HTMLImageElement \<Rightarrow> Inl BrowserConversionUnsupported)"

subsection \<open>The decoded-image path\<close>

text \<open>
  The body of the two inner loops of \<open>generateSemiGraphicBlockFromJimp\<close>; the state is
  \<open>(colors, pattern)\<close>. \<open>>>\<close> is the arithmetic shift of the 32-bit value.
\<close>

definition jimpPixel ::
  "nat \<Rightarrow> nat \<Rightarrow> JimpImage \<Rightarrow> nat \<Rightarrow> nat \<Rightarrow> nat list \<times> nat \<Rightarrow> nat \<Rightarrow> nat \<Rightarrow> nat list \<times> nat" where
  "jimpPixel blockX blockY img originalWidth originalHeight st dy dx =
     (let colors = fst st; pattern = snd st;
          pixelX = blockX * 2 + dx; pixelY = blockY * 4 + dy
      in if pixelX \<ge> originalWidth \<or> pixelY \<ge> originalHeight then st
         else
           (let color = getPixelColor img pixelX pixelY;
                rv = signed_drop_bit 24 color AND 0xFF;
                gv = signed_drop_bit 16 color AND 0xFF;
                bv = signed_drop_bit 8 color AND 0xFF;
                alpha = color AND 0xFF
            in if alpha > 127 then
                 (let colorCode = findNearestColor \<lparr>r = uint rv, g = uint gv, b = uint bv\<rparr>
                  in (colors @ [colorCode], pattern OR push_bit (bitIndex dx dy) 1))
               else st))"

definition generateSemiGraphicBlockFromJimp ::
  "nat \<Rightarrow> nat \<Rightarrow> JimpImage \<Rightarrow> nat \<Rightarrow> nat \<Rightarrow> SemiGraphicBlock" where
  "generateSemiGraphicBlockFromJimp blockX blockY img originalWidth originalHeight =
     (let st = foldl (\<lambda>st dy. foldl (\<lambda>st dx.
                   jimpPixel blockX blockY img originalWidth originalHeight st dy dx) st [0..<2])
                 ([], 0) [0..<4];
          colorCode = getMostFrequentColor (fst st)
      in \<lparr>pattern = snd st, colorCode = colorCode\<rparr>)"

definition convertJimpToSemiGraphic :: "JimpImage \<Rightarrow> SemiGraphicData" where
  "convertJimpToSemiGraphic img =
     (let originalWidth = bitmapWidth img; originalHeight = bitmapHeight img;
          adjustedWidth = ceilDiv originalWidth 2 * 2;
          adjustedHeight = ceilDiv originalHeight 4 * 4;
          semiWidth = adjustedWidth div 2;
          semiHeight = adjustedHeight div 4
      in \<lparr>width = semiWidth, height = semiHeight,
          blocks = map (\<lambda>y. map (\<lambda>x.
                     generateSemiGraphicBlockFromJimp x y img originalWidth originalHeight)
                       [0..<semiWidth]) [0..<semiHeight]\<rparr>)"

text \<open>
  \<open>Jimp.read\<close> is the external decoder: a parameter \<open>jimpRead\<close> that gives the
  decoded image, or \<open>None\<close> where the promise is rejected. The \<open>catch\<close> turns that
  into \<open>null\<close>.
\<close>

definition convertImageFile :: "(string \<Rightarrow> JimpImage option) \<Rightarrow> string \<Rightarrow> SemiGraphicData option" where
  "convertImageFile jimpRead imagePath =
     (case jimpRead imagePath of
        Some img \<Rightarrow> Some (convertJimpToSemiGraphic img)
      | None \<Rightarrow> None)"

definition convertImageFromProject ::
  "(string \<Rightarrow> JimpImage option) \<Rightarrow> ProjectData \<Rightarrow> string \<Rightarrow> SemiGraphicData option" where
  "convertImageFromProject jimpRead projectData imageId =
     (case find (\<lambda>img. resourceId img = imageId) (images projectData) of
        None \<Rightarrow> None
      | Some imageResource \<Rightarrow>
          (case jimpRead (filename imageResource) of
             Some img \<Rightarrow> Some (convertJimpToSemiGraphic img)
           | None \<Rightarrow> None))"

subsection \<open>CliImageLoader.loadImage\<close>

text \<open>
  The pixel extraction of the command-line loader: every pixel's four channels, row by
  row, written in sequence into a \<open>Uint8ClampedArray\<close> of \<open>width * height * 4\<close> bytes.
  \<open>>>>\<close> is the logical shift.
\<close>

definition pixelBytes :: "JimpImage \<Rightarrow> nat \<Rightarrow> nat \<Rightarrow> 8 word list" where
  "pixelBytes img x y =
     (let color = getPixelColor img x y;
          rv = drop_bit 24 color AND 0xFF;
          gv = drop_bit 16 color AND 0xFF;
          bv = drop_bit 8 color AND 0xFF;
          a = color AND 0xFF
      in [ucast rv, ucast gv, ucast bv, ucast a])"

definition extractImageData :: "JimpImage \<Rightarrow> ImageData" where
  "extractImageData img =
     (let width = bitmapWidth img; height = bitmapHeight img
      in \<lparr>pixelWidth = width, pixelHeight = height,
          data = concat (map (\<lambda>y. concat (map (\<lambda>x. pixelBytes img x y) [0..<width]))
                   [0..<height])\<rparr>)"

definition loadImage ::
  "(string \<Rightarrow> bool) \<Rightarrow> (string \<Rightarrow> JimpImage option) \<Rightarrow> string \<Rightarrow> ImageData option" where
  "loadImage existsSync jimpRead imagePath =
     (if \<not> existsSync imagePath then None
      else (case jimpRead imagePath of
              Some img \<Rightarrow> Some (extractImageData img)
            | None \<Rightarrow> None))"

section \<open>Z80 exporter\<close>

subsection \<open>Number formatting\<close>

text \<open>\<open>n.toString(16)\<close> and the template literal \<open>`${n}`\<close> for a natural number.\<close>

definition digitChar :: "nat \<Rightarrow> char" where
  "digitChar d = ''0123456789abcdef'' ! d"

fun toString16 :: "nat \<Rightarrow> string" where
  "toString16 n = (if n < 16 then [digitChar n] else toString16 (n div 16) @ [digitChar (n mod 16)])"

fun toString10 :: "nat \<Rightarrow> string" where
  "toString10 n = (if n < 10 then [digitChar n] else toString10 (n div 10) @ [digitChar (n mod 10)])"

declare toString16.simps [simp del] toString10.simps [simp del]

definition padStart2 :: "string \<Rightarrow> string" where
  "padStart2 s = replicate (2 - length s) CHR ''0'' @ s"

text \<open>\<open>toUpperCase\<close> on the characters a hexadecimal numeral can hold.\<close>

definition upperChar :: "char \<Rightarrow> char" where
  "upperChar c =
     (if c = CHR ''a'' then CHR ''A'' else if c = CHR ''b'' then CHR ''B''
      else if c = CHR ''c'' then CHR ''C'' else if c = CHR ''d'' then CHR ''D''
      else if c = CHR ''e'' then CHR ''E'' else if c = CHR ''f'' then CHR ''F'' else c)"

definition toUpperCase :: "string \<Rightarrow> string" where
  "toUpperCase s = map upperChar s"

text \<open>\<open>`$${n.toString(16).padStart(2, '0').toUpperCase()}`\<close>\<close>

definition hexLiteral :: "nat \<Rightarrow> string" where
  "hexLiteral n = CHR ''$'' # toUpperCase (padStart2 (toString16 n))"

fun join :: "string \<Rightarrow> string list \<Rightarrow> string" where
  "join sep [] = []"
| "join sep [s] = s"
| "join sep (s # t # ss) = s @ sep @ join sep (t # ss)"

text \<open>The prefix \<open>\tDB\t\<close> of a data line.\<close>

definition DB :: string where
  "DB = CHR 0x09 # ''DB'' @ [CHR 0x09]"

text \<open>The Japanese titles of the two comment lines, as their UTF-8 bytes.\<close>

definition semiGraphicTitle :: string where
  "semiGraphicTitle =
     [CHR 0xE3, CHR 0x82, CHR 0xBB, CHR 0xE3, CHR 0x83, CHR 0x9F, CHR 0xE3, CHR 0x82, CHR 0xB0,
      CHR 0xE3, CHR 0x83, CHR 0xA9, CHR 0xE3, CHR 0x83, CHR 0x95, CHR 0xE3, CHR 0x82, CHR 0xA3,
      CHR 0xE3, CHR 0x83, CHR 0x83, CHR 0xE3, CHR 0x82, CHR 0xAF, CHR 0xE3, CHR 0x83, CHR 0x87,
      CHR 0xE3, CHR 0x83, CHR 0xBC, CHR 0xE3, CHR 0x82, CHR 0xBF]"

definition colorAttributeTitle :: string where
  "colorAttributeTitle =
     [CHR 0xE3, CHR 0x82, CHR 0xAB, CHR 0xE3, CHR 0x83, CHR 0xA9, CHR 0xE3, CHR 0x83, CHR 0xBC,
      CHR 0xE3, CHR 0x82, CHR 0xA2, CHR 0xE3, CHR 0x83, CHR 0x88, CHR 0xE3, CHR 0x83, CHR 0xAA,
      CHR 0xE3, CHR 0x83, CHR 0x93, CHR 0xE3, CHR 0x83, CHR 0xA5, CHR 0xE3, CHR 0x83, CHR 0xBC,
      CHR 0xE3, CHR 0x83, CHR 0x88, CHR 0xE3, CHR 0x83, CHR 0x87, CHR 0xE3, CHR 0x83, CHR 0xBC,
      CHR 0xE3, CHR 0x82, CHR 0xBF]"

definition headerLines :: "string \<Rightarrow> SemiGraphicData \<Rightarrow> string \<Rightarrow> string list" where
  "headerLines title semiData labelPrefix =
     [''; '' @ title @ '' ('' @ toString10 (width semiData) @ ''x''
        @ toString10 (height semiData) @ '')'',
      labelPrefix @ '':'']"

subsection \<open>Reading the grid\<close>

text \<open>
  \<open>semiData.blocks[y][x]\<close> followed by a property read: a \<open>TypeError\<close> when the row
  or the block is missing.
\<close>

definition blockAt :: "SemiGraphicData \<Rightarrow> nat \<Rightarrow> nat \<Rightarrow> SemiGraphicBlock option" where
  "blockAt semiData y x =
     (if y < length (blocks semiData) \<and> x < length (blocks semiData ! y)
      then Some (blocks semiData ! y ! x) else None)"

text \<open>A counted loop that pushes one result per index and stops at the first exception.\<close>

fun collect :: "(nat \<Rightarrow> 'a option) \<Rightarrow> nat list \<Rightarrow> 'a list option" where
  "collect f [] = Some []"
| "collect f (i # is) =
     (case f i of
        None \<Rightarrow> None
      | Some v \<Rightarrow> (case collect f is of None \<Rightarrow> None | Some vs \<Rightarrow> Some (v # vs)))"

subsection \<open>generateSemiGraphicDB\<close>

definition rowDataBytes :: "SemiGraphicData \<Rightarrow> nat \<Rightarrow> string list option" where
  "rowDataBytes semiData y =
     collect (\<lambda>x. map_option (\<lambda>block. hexLiteral (pattern block)) (blockAt semiData y x))
       [0..<width semiData]"

text \<open>
  \<open>for (let i = 0; i < dataBytes.length; i += 16)\<close>, pushing the line
  \<open>`\tDB\t${chunk.join(', ')}`\<close> for the chunk \<open>dataBytes.slice(i, i + 16)\<close>.
\<close>

definition dbLine :: "string list \<Rightarrow> string" where
  "dbLine chunk = DB @ join '', '' chunk"

function chunkLines :: "string list \<Rightarrow> nat \<Rightarrow> string list" where
  "chunkLines dataBytes i =
     (if i < length dataBytes
      then (let chunk = take 16 (drop i dataBytes) in dbLine chunk # chunkLines dataBytes (i + 16))
      else [])"
  by pat_completeness auto
termination
  by (relation "measure (\<lambda>(dataBytes, i). length dataBytes - i)") auto

declare chunkLines.simps [simp del]

definition generateSemiGraphicDB :: "SemiGraphicData \<Rightarrow> string \<Rightarrow> string list option" where
  "generateSemiGraphicDB semiData labelPrefix =
     map_option (\<lambda>rows. headerLines semiGraphicTitle semiData labelPrefix @ concat rows)
       (collect (\<lambda>y. map_option (\<lambda>dataBytes. chunkLines dataBytes 0) (rowDataBytes semiData y))
          [0..<height semiData])"

subsection \<open>generateColorAttributeDB\<close>

text \<open>\<open>colorMap[colorCode] || 0xF8\<close>\<close>

definition getAttributeColorCode :: "nat \<Rightarrow> nat" where
  "getAttributeColorCode code =
     (let colorMap = [0x18, 0x38, 0x58, 0x78, 0x98, 0xB8, 0xD8, 0xF8]
      in if code < length colorMap \<and> colorMap ! code \<noteq> 0
         then colorMap ! code else 0xF8)"

definition rowColorsOf :: "SemiGraphicData \<Rightarrow> nat \<Rightarrow> nat list option" where
  "rowColorsOf semiData y =
     collect (\<lambda>x. map_option colorCode (blockAt semiData y x)) [0..<width semiData]"

text \<open>\<open>while (startIndex < rowColors.length && rowColors[startIndex] === 7) startIndex++\<close>\<close>

function skipLeadingWhite :: "nat list \<Rightarrow> nat \<Rightarrow> nat" where
  "skipLeadingWhite rowColors startIndex =
     (if startIndex < length rowColors \<and> rowColors ! startIndex = 7
      then skipLeadingWhite rowColors (startIndex + 1)
      else startIndex)"
  by pat_completeness auto
termination
  by (relation "measure (\<lambda>(rowColors, startIndex). length rowColors - startIndex)") auto

declare skipLeadingWhite.simps [simp del]

text \<open>
  The state of the scan. The source keeps \<open>attributePairs\<close> as a flat list of strings,
  position and attribute literal in turn, and joins them two by two afterwards; here a
  pair of numbers is kept and formatted by \<open>pairString\<close>.
\<close>

record ScanState =
  attributePairs :: "(nat \<times> nat) list"
  currentColor :: int
  changeCount :: nat

definition scanStep :: "nat list \<Rightarrow> ScanState \<Rightarrow> nat \<Rightarrow> ScanState" where
  "scanStep rowColors st x =
     (let colorCode = rowColors ! x
      in if colorCode = 0 then st
         else if int colorCode \<noteq> currentColor st then
           (let attrColorCode = getAttributeColorCode colorCode
            in st\<lparr>attributePairs := attributePairs st @ [(x, attrColorCode)],
                  currentColor := int colorCode,
                  changeCount := changeCount st + 1\<rparr>)
         else st)"

definition scanRow :: "nat list \<Rightarrow> nat \<Rightarrow> int \<Rightarrow> ScanState" where
  "scanRow rowColors startIndex endIndex =
     foldl (scanStep rowColors)
       \<lparr>attributePairs = [], currentColor = - 1, changeCount = 0\<rparr>
       [startIndex..<nat (endIndex + 1)]"

definition pairString :: "nat \<times> nat \<Rightarrow> string" where
  "pairString p = toString10 (fst p) @ '', '' @ hexLiteral (snd p)"

definition fallbackLine :: string where
  "fallbackLine = DB @ ''1, 0, $F8''"

definition colorAttributeLine :: "nat list \<Rightarrow> string" where
  "colorAttributeLine rowColors =
     (let startIndex = skipLeadingWhite rowColors 0;
          endIndex = int (length rowColors) - 1
      in if int startIndex > endIndex then fallbackLine
         else
           (let st = scanRow rowColors startIndex endIndex
            in if changeCount st = 0 then fallbackLine
               else DB @ toString10 (changeCount st) @ '', ''
                      @ join '', '' (map pairString (attributePairs st))))"

definition generateColorAttributeDB :: "SemiGraphicData \<Rightarrow> string \<Rightarrow> string list option" where
  "generateColorAttributeDB semiData labelPrefix =
     map_option (\<lambda>rows. headerLines colorAttributeTitle semiData labelPrefix @ rows)
       (collect (\<lambda>y. map_option colorAttributeLine (rowColorsOf semiData y))
          [0..<height semiData])"

section \<open>Notions used to state the properties\<close>

text \<open>
  The grid of the data model: \<open>height\<close> rows of \<open>width\<close> blocks each.
\<close>

definition rectangular :: "SemiGraphicData \<Rightarrow> bool" where
  "rectangular semiData \<longleftrightarrow>
     length (blocks semiData) = height semiData \<and>
     (\<forall>row\<in>set (blocks semiData). length row = width semiData)"

text \<open>
  The format \<open>count, x1, attr1, x2, attr2, \<dots>\<close> of a line of the colour-attribute
  table, for a count and a list of (position, attribute byte) pairs.
\<close>

definition dataLine :: "nat \<Rightarrow> (nat \<times> nat) list \<Rightarrow> string" where
  "dataLine count pairs =
     DB @ toString10 count
        @ concat (map (\<lambda>p. '', '' @ toString10 (fst p) @ '', '' @ hexLiteral (snd p)) pairs)"

text \<open>
  The pairs that \<open>colorAttributeLine\<close> writes for a row: the single pair of the literal
  fallback line in its two fallback branches, the pairs collected by the scan otherwise
  (lemma \<open>colorAttributeLine_dataLine\<close>).
\<close>

definition encodedPairs :: "nat list \<Rightarrow> (nat \<times> nat) list" where
  "encodedPairs rowColors =
     (let startIndex = skipLeadingWhite rowColors 0;
          endIndex = int (length rowColors) - 1
      in if int startIndex > endIndex then [(0, 0xF8)]
         else
           (let st = scanRow rowColors startIndex endIndex
            in if changeCount st = 0 then [(0, 0xF8)] else attributePairs st))"

text \<open>
  A buffer of the declared size: four bytes for each of the \<open>width * height\<close> pixels.
\<close>

definition wellFormedBuffer :: "ImageData \<Rightarrow> bool" where
  "wellFormedBuffer imageData \<longleftrightarrow>
     length (data imageData) = pixelWidth imageData * pixelHeight imageData * 4"

text \<open>
  Channel \<open>k\<close> (0 red, 1 green, 2 blue, 3 alpha) of the pixel \<open>(px, py)\<close> of a
  well-formed buffer; whether the pixel lies in the image and is opaque (alpha at least
  128); and the palette index nearest to its colour.
\<close>

definition channelAt :: "ImageData \<Rightarrow> nat \<Rightarrow> nat \<Rightarrow> nat \<Rightarrow> 8 word" where
  "channelAt imageData px py k = data imageData ! ((py * pixelWidth imageData + px) * 4 + k)"

definition opaqueAt :: "ImageData \<Rightarrow> nat \<Rightarrow> nat \<Rightarrow> bool" where
  "opaqueAt imageData px py \<longleftrightarrow>
     px < pixelWidth imageData \<and> py < pixelHeight imageData \<and> 128 \<le> channelAt imageData px py 3"

definition nearestAt :: "ImageData \<Rightarrow> nat \<Rightarrow> nat \<Rightarrow> nat" where
  "nearestAt imageData px py =
     findNearestColor \<lparr>r = uint (channelAt imageData px py 0),
                       g = uint (channelAt imageData px py 1),
                       b = uint (channelAt imageData px py 2)\<rparr>"

text \<open>The same two notions for a decoded image, read off the packed pixel value.\<close>

definition jimpOpaqueAt :: "JimpImage \<Rightarrow> nat \<Rightarrow> nat \<Rightarrow> bool" where
  "jimpOpaqueAt img px py \<longleftrightarrow>
     px < bitmapWidth img \<and> py < bitmapHeight img \<and> 127 < getPixelColor img px py AND 0xFF"

definition jimpNearestAt :: "JimpImage \<Rightarrow> nat \<Rightarrow> nat \<Rightarrow> nat" where
  "jimpNearestAt img px py =
     findNearestColor \<lparr>r = uint (drop_bit 24 (getPixelColor img px py) AND 0xFF),
                       g = uint (drop_bit 16 (getPixelColor img px py) AND 0xFF),
                       b = uint (drop_bit 8 (getPixelColor img px py) AND 0xFF)\<rparr>"

text \<open>
  Two images of opaque black, (0, 0, 0) with alpha 255: a buffer of 2 by 4 pixels, one
  full block, and a decoded image of a single pixel.
\<close>

definition opaqueBlackBlock :: ImageData where
  "opaqueBlackBlock =
     \<lparr>pixelWidth = 2, pixelHeight = 4,
      data = [0, 0, 0, 255, 0, 0, 0, 255, 0, 0, 0, 255, 0, 0, 0, 255,
              0, 0, 0, 255, 0, 0, 0, 255, 0, 0, 0, 255, 0, 0, 0, 255]\<rparr>"

definition opaqueBlackPixel :: "nat \<Rightarrow> nat \<Rightarrow> 32 word" where
  "opaqueBlackPixel x y = 0x000000FF"

definition opaqueBlackDot :: JimpImage where
  "opaqueBlackDot = \<lparr>bitmapWidth = 1, bitmapHeight = 1, getPixelColor = opaqueBlackPixel\<rparr>"

text \<open>A decoded image of a single opaque white pixel, (255, 255, 255) with alpha 255.\<close>

definition opaqueWhitePixel :: "nat \<Rightarrow> nat \<Rightarrow> 32 word" where
  "opaqueWhitePixel x y = 0xFFFFFFFF"

definition opaqueWhiteDot :: JimpImage where
  "opaqueWhiteDot = \<lparr>bitmapWidth = 1, bitmapHeight = 1, getPixelColor = opaqueWhitePixel\<rparr>"

text \<open>
  A decoder that returns the given image whatever the path, a file system in which every
  path exists, and a project with one image resource.
\<close>

definition decodeAs :: "JimpImage \<Rightarrow> string \<Rightarrow> JimpImage option" where
  "decodeAs img path = Some img"

definition anyFile :: "string \<Rightarrow> bool" where
  "anyFile path = True"

definition dotProject :: ProjectData where
  "dotProject = \<lparr>images = [\<lparr>resourceId = ''dot'', filename = ''dot.png''\<rparr>]\<rparr>"

text \<open>The state in which the scan starts.\<close>

definition scanInit :: ScanState where
  "scanInit = \<lparr>attributePairs = [], currentColor = - 1, changeCount = 0\<rparr>"

text \<open>The number of fields that \<open>line.split(',')\<close> gives.\<close>

definition commaFields :: "string \<Rightarrow> nat" where
  "commaFields line = length (filter (\<lambda>c. c = CHR '','') line) + 1"

section \<open>Nearest palette colour\<close>

lemma length_DIGITAL_COLORS: "length DIGITAL_COLORS = 8"
  by (simp add: DIGITAL_COLORS_def)

lemma upt_0_8: "[0..<8] = [0, 1, 2, 3, 4, 5, 6, 7::nat]"
  by (simp add: upt_rec)

lemma squaredDistance_nonneg: "0 \<le> squaredDistance rgb color"
  by (simp add: squaredDistance_def)

lemma colorDistance_sqrt: "colorDistance rgb color = sqrt (of_int (squaredDistance rgb color))"
  by (simp add: colorDistance_def squaredDistance_def)

lemma colorDistance_less_iff:
  "colorDistance rgb c < colorDistance rgb c' \<longleftrightarrow> squaredDistance rgb c < squaredDistance rgb c'"
  by (simp add: colorDistance_sqrt)

lemma colorDistance_le_iff:
  "colorDistance rgb c \<le> colorDistance rgb c' \<longleftrightarrow> squaredDistance rgb c \<le> squaredDistance rgb c'"
  by (simp add: colorDistance_sqrt)

text \<open>The two loops run in lockstep.\<close>

lemma nearestStep_sqState:
  "nearestStep rgb (sqState st) i = sqState (nearestStepSq rgb st i)"
  by (cases st; cases "fst st")
     (simp_all add: nearestStep_def nearestStepSq_def sqState_def belowMin_def
        colorDistance_sqrt Let_def)

lemma foldl_nearestStep_sqState:
  "foldl (nearestStep rgb) (sqState st) is = sqState (foldl (nearestStepSq rgb) st is)"
  by (induction "is" arbitrary: st) (simp_all add: nearestStep_sqState)

lemma findNearestColor_code [code]:
  "findNearestColor rgb =
     snd (foldl (nearestStepSq rgb) (None, 0) [0..<length DIGITAL_COLORS])"
proof -
  have "(None, 0) = sqState (None, 0)" by (simp add: sqState_def)
  then show ?thesis
    unfolding findNearestColor_def
    by (simp only: foldl_nearestStep_sqState) (simp add: sqState_def)
qed

lemma nearest_inv:
  "0 < n \<Longrightarrow>
   (case foldl (nearestStep rgb) (None, 0) [0..<n] of (m, k) \<Rightarrow>
      m = Some (colorDistance rgb (DIGITAL_COLORS ! k)) \<and> k < n \<and>
      (\<forall>j<n. colorDistance rgb (DIGITAL_COLORS ! k) \<le> colorDistance rgb (DIGITAL_COLORS ! j)) \<and>
      (\<forall>j<k. colorDistance rgb (DIGITAL_COLORS ! k) < colorDistance rgb (DIGITAL_COLORS ! j)))"
proof (induction n)
  case 0
  then show ?case by simp
next
  case (Suc n)
  show ?case
  proof (cases "n = 0")
    case True
    then show ?thesis by (simp add: nearestStep_def belowMin_def)
  next
    case False
    with Suc obtain m k where st: "foldl (nearestStep rgb) (None, 0) [0..<n] = (m, k)"
      and m: "m = Some (colorDistance rgb (DIGITAL_COLORS ! k))" and k: "k < n"
      and le: "\<forall>j<n. colorDistance rgb (DIGITAL_COLORS ! k) \<le> colorDistance rgb (DIGITAL_COLORS ! j)"
      and lt: "\<forall>j<k. colorDistance rgb (DIGITAL_COLORS ! k) < colorDistance rgb (DIGITAL_COLORS ! j)"
      by (cases "foldl (nearestStep rgb) (None, 0) [0..<n]") auto
    have unf: "foldl (nearestStep rgb) (None, 0) [0..<Suc n] = nearestStep rgb (m, k) n"
      using st by simp
    show ?thesis
    proof (cases "colorDistance rgb (DIGITAL_COLORS ! n) < colorDistance rgb (DIGITAL_COLORS ! k)")
      case True
      have "\<forall>j<Suc n. colorDistance rgb (DIGITAL_COLORS ! n) \<le> colorDistance rgb (DIGITAL_COLORS ! j)"
        using True le by (auto simp: less_Suc_eq)
      moreover have "\<forall>j<n. colorDistance rgb (DIGITAL_COLORS ! n) < colorDistance rgb (DIGITAL_COLORS ! j)"
        using True le by fastforce
      ultimately show ?thesis using True m unfolding unf
        by (simp add: nearestStep_def belowMin_def)
    next
      case False
      then show ?thesis using m k le lt unfolding unf
        by (auto simp: nearestStep_def belowMin_def less_Suc_eq)
    qed
  qed
qed

lemma findNearestColor_argmin:
  "findNearestColor rgb < 8 \<and>
   (\<forall>j<8. colorDistance rgb (DIGITAL_COLORS ! findNearestColor rgb)
             \<le> colorDistance rgb (DIGITAL_COLORS ! j)) \<and>
   (\<forall>j<findNearestColor rgb. colorDistance rgb (DIGITAL_COLORS ! findNearestColor rgb)
             < colorDistance rgb (DIGITAL_COLORS ! j))"
  using nearest_inv [of 8 rgb]
  by (simp add: findNearestColor_def length_DIGITAL_COLORS split: prod.splits)

lemma findNearestColor_palette:
  "findNearestColor (DIGITAL_COLORS ! 0) = 0" "findNearestColor (DIGITAL_COLORS ! 1) = 1"
  "findNearestColor (DIGITAL_COLORS ! 2) = 2" "findNearestColor (DIGITAL_COLORS ! 3) = 3"
  "findNearestColor (DIGITAL_COLORS ! 4) = 4" "findNearestColor (DIGITAL_COLORS ! 5) = 5"
  "findNearestColor (DIGITAL_COLORS ! 6) = 6" "findNearestColor (DIGITAL_COLORS ! 7) = 7"
  by code_simp+

lemma findNearestColor_examples:
  "findNearestColor \<lparr>r = 50, g = 50, b = 50\<rparr> = 0"
  "findNearestColor \<lparr>r = 200, g = 200, b = 200\<rparr> = 7"
  "findNearestColor \<lparr>r = 200, g = 100, b = 0\<rparr> = 2"
  by code_simp+

lemma less_8_cases: "i < 8 \<Longrightarrow> i = 0 \<or> i = 1 \<or> i = 2 \<or> i = 3 \<or> i = 4 \<or> i = 5 \<or> i = 6 \<or> i = (7::nat)"
  by arith

text \<open>
  C8. For every RGB triple \<open>findNearestColor\<close> returns an index below 8 of the palette
  whose Euclidean distance to the triple is minimal, and every palette entry before it is
  strictly farther away (the first minimal index wins); every palette entry maps to its
  own index; (50,50,50) maps to black, (200,200,200) to white and (200,100,0) to red.
\<close>

theorem findNearestColor_nearest:
  "length DIGITAL_COLORS = 8 \<and>
   findNearestColor rgb < 8 \<and>
   (\<forall>j<8. colorDistance rgb (DIGITAL_COLORS ! findNearestColor rgb)
             \<le> colorDistance rgb (DIGITAL_COLORS ! j)) \<and>
   (\<forall>j<findNearestColor rgb. colorDistance rgb (DIGITAL_COLORS ! findNearestColor rgb)
             < colorDistance rgb (DIGITAL_COLORS ! j)) \<and>
   (\<forall>i<8. findNearestColor (DIGITAL_COLORS ! i) = i) \<and>
   findNearestColor \<lparr>r = 50, g = 50, b = 50\<rparr> = 0 \<and>
   findNearestColor \<lparr>r = 200, g = 200, b = 200\<rparr> = 7 \<and>
   findNearestColor \<lparr>r = 200, g = 100, b = 0\<rparr> = 2"
proof -
  have "\<forall>i<8. findNearestColor (DIGITAL_COLORS ! i) = i"
  proof (intro allI impI)
    fix i :: nat assume "i < 8"
    then show "findNearestColor (DIGITAL_COLORS ! i) = i"
      using findNearestColor_palette by (auto dest!: less_8_cases)
  qed
  then show ?thesis
    using findNearestColor_argmin [of rgb] findNearestColor_examples length_DIGITAL_COLORS
    by simp
qed

theorem findNearestColor_nearest_witness:
  "findNearestColor \<lparr>r = 200, g = 100, b = 0\<rparr> = 2 \<and>
   colorDistance \<lparr>r = 200, g = 100, b = 0\<rparr> (DIGITAL_COLORS ! 2)
     \<le> colorDistance \<lparr>r = 200, g = 100, b = 0\<rparr> (DIGITAL_COLORS ! 6) \<and>
   colorDistance \<lparr>r = 200, g = 100, b = 0\<rparr> (DIGITAL_COLORS ! 2)
     < colorDistance \<lparr>r = 200, g = 100, b = 0\<rparr> (DIGITAL_COLORS ! 0) \<and>
   findNearestColor (DIGITAL_COLORS ! 5) = 5"
proof -
  note t = findNearestColor_nearest [of "\<lparr>r = 200, g = 100, b = 0\<rparr>"]
  from t have e: "findNearestColor \<lparr>r = 200, g = 100, b = 0\<rparr> = 2" by blast
  from t have "\<forall>j<8. colorDistance \<lparr>r = 200, g = 100, b = 0\<rparr>
        (DIGITAL_COLORS ! findNearestColor \<lparr>r = 200, g = 100, b = 0\<rparr>)
      \<le> colorDistance \<lparr>r = 200, g = 100, b = 0\<rparr> (DIGITAL_COLORS ! j)" by blast
  then have a: "colorDistance \<lparr>r = 200, g = 100, b = 0\<rparr> (DIGITAL_COLORS ! 2)
      \<le> colorDistance \<lparr>r = 200, g = 100, b = 0\<rparr> (DIGITAL_COLORS ! 6)"
    unfolding e by simp
  from t have "\<forall>j<findNearestColor \<lparr>r = 200, g = 100, b = 0\<rparr>.
      colorDistance \<lparr>r = 200, g = 100, b = 0\<rparr>
        (DIGITAL_COLORS ! findNearestColor \<lparr>r = 200, g = 100, b = 0\<rparr>)
      < colorDistance \<lparr>r = 200, g = 100, b = 0\<rparr> (DIGITAL_COLORS ! j)" by blast
  then have b: "colorDistance \<lparr>r = 200, g = 100, b = 0\<rparr> (DIGITAL_COLORS ! 2)
      < colorDistance \<lparr>r = 200, g = 100, b = 0\<rparr> (DIGITAL_COLORS ! 0)"
    unfolding e by simp
  from t have "\<forall>i<8. findNearestColor (DIGITAL_COLORS ! i) = i" by blast
  then have c: "findNearestColor (DIGITAL_COLORS ! 5) = 5" by simp
  from e a b c show ?thesis by blast
qed

section \<open>Majority colour\<close>

lemma countVote_keys:
  "set (map fst (countVote c fr)) = insert c (set (map fst fr))"
  by (induction c fr rule: countVote.induct) auto

lemma countVote_sorted:
  "sorted_wrt (<) (map fst fr) \<Longrightarrow> sorted_wrt (<) (map fst (countVote c fr))"
proof (induction c fr rule: countVote.induct)
  case (1 color)
  then show ?case by simp
next
  case (2 color k n rest)
  have "\<forall>x\<in>set (map fst (countVote color rest)). k < x" if "k < color"
    using that 2(2) by (auto simp: countVote_keys simp del: set_map)
  with 2 show ?case by auto
qed

lemma countVote_map_of:
  "sorted_wrt (<) (map fst fr) \<Longrightarrow>
   map_of (countVote c fr) =
     (map_of fr)(c \<mapsto> (case map_of fr c of None \<Rightarrow> 1 | Some n \<Rightarrow> n + 1))"
proof (induction c fr rule: countVote.induct)
  case (1 color)
  then show ?case by simp
next
  case (2 color k n rest)
  show ?case
  proof (cases "color = k")
    case True
    then show ?thesis by auto
  next
    case ne: False
    show ?thesis
    proof (cases "color < k")
      case True
      have "color \<notin> fst ` set rest" using True 2(2) by force
      then have "map_of rest color = None" by (simp add: map_of_eq_None_iff)
      with True ne show ?thesis by auto
    next
      case False
      have srt: "sorted_wrt (<) (map fst rest)" using 2(2) by simp
      have ih: "map_of (countVote color rest) =
          (map_of rest)(color \<mapsto> (case map_of rest color of None \<Rightarrow> 1 | Some n \<Rightarrow> n + 1))"
        using 2(1) [OF ne False srt] .
      have "map_of (countVote color ((k, n) # rest)) = (map_of (countVote color rest))(k \<mapsto> n)"
        using ne False by simp
      also have "\<dots> = ((map_of rest)(k \<mapsto> n))
          (color \<mapsto> (case map_of rest color of None \<Rightarrow> 1 | Some n \<Rightarrow> n + 1))"
        unfolding ih using ne by (rule fun_upd_twist)
      also have "\<dots> = (map_of ((k, n) # rest))
          (color \<mapsto> (case map_of ((k, n) # rest) color of None \<Rightarrow> 1 | Some n \<Rightarrow> n + 1))"
        using ne by simp
      finally show ?thesis .
    qed
  qed
qed

lemma frequencyOf_snoc:
  "frequencyOf (xs @ [x]) = (if x \<noteq> 0 then countVote x (frequencyOf xs) else frequencyOf xs)"
  by (simp add: frequencyOf_def)

lemma frequencyOf_inv:
  "sorted_wrt (<) (map fst (frequencyOf xs)) \<and>
   (\<forall>c. map_of (frequencyOf xs) c =
      (if c \<noteq> 0 \<and> c \<in> set xs then Some (count_list xs c) else None))"
proof (induction xs rule: rev_induct)
  case Nil
  then show ?case by (simp add: frequencyOf_def)
next
  case (snoc x xs)
  show ?case
  proof (cases "x = 0")
    case True
    with snoc show ?thesis by (auto simp: frequencyOf_snoc)
  next
    case False
    from snoc have s: "sorted_wrt (<) (map fst (frequencyOf xs))" by blast
    from snoc have m: "\<And>c. map_of (frequencyOf xs) c =
      (if c \<noteq> 0 \<and> c \<in> set xs then Some (count_list xs c) else None)" by blast
    have "map_of (countVote x (frequencyOf xs)) c =
      (if c \<noteq> 0 \<and> c \<in> set (xs @ [x]) then Some (count_list (xs @ [x]) c) else None)" for c
      using False by (simp add: countVote_map_of [OF s] m count_list_0_iff)
    with False s show ?thesis
      by (simp add: frequencyOf_snoc countVote_sorted del: set_append count_list_append)
  qed
qed

lemma frequencyOf_entries:
  "(c, n) \<in> set (frequencyOf xs) \<longleftrightarrow> c \<noteq> 0 \<and> c \<in> set xs \<and> n = count_list xs c"
proof -
  have d: "distinct (map fst (frequencyOf xs))"
    using frequencyOf_inv [of xs] by (simp add: strict_sorted_iff)
  have "(c, n) \<in> set (frequencyOf xs) \<longleftrightarrow> map_of (frequencyOf xs) c = Some n"
    using d by simp
  then show ?thesis using frequencyOf_inv [of xs] by auto
qed

lemma foldl_pickMax_inv:
  "sorted_wrt (<) (map fst es) \<Longrightarrow> \<forall>e\<in>set es. 0 < snd e \<Longrightarrow>
   (case foldl pickMax (0, 0) es of (maxCount, mostFrequent) \<Rightarrow>
      (es = [] \<and> maxCount = 0 \<and> mostFrequent = 0) \<or>
      ((mostFrequent, maxCount) \<in> set es \<and>
       (\<forall>e\<in>set es. snd e \<le> maxCount \<and> (snd e = maxCount \<longrightarrow> mostFrequent \<le> fst e))))"
proof (induction es rule: rev_induct)
  case Nil
  then show ?case by simp
next
  case (snoc e es)
  obtain c n where e: "e = (c, n)" by (cases e)
  obtain M k where st: "foldl pickMax (0, 0) es = (M, k)" by (cases "foldl pickMax (0, 0) es")
  have s: "sorted_wrt (<) (map fst es)" and gt: "\<forall>e'\<in>set es. fst e' < c"
    using snoc.prems(1) e by (auto simp: sorted_wrt_append)
  have pos: "\<forall>e\<in>set es. 0 < snd e" and n: "0 < n" using snoc.prems(2) e by auto
  from snoc.IH [OF s pos] st
  have ih: "(es = [] \<and> M = 0 \<and> k = 0) \<or>
      ((k, M) \<in> set es \<and> (\<forall>e\<in>set es. snd e \<le> M \<and> (snd e = M \<longrightarrow> k \<le> fst e)))"
    by simp
  have unf: "foldl pickMax (0, 0) (es @ [(c, n)]) = (if n > M then (n, c) else (M, k))"
    using st by (simp add: pickMax_def)
  show ?case
  proof (cases "n > M")
    case True
    with ih show ?thesis unfolding e unf by auto
  next
    case False
    with n ih have in_es: "(k, M) \<in> set es"
      and mx: "\<forall>e\<in>set es. snd e \<le> M \<and> (snd e = M \<longrightarrow> k \<le> fst e)" by auto
    from in_es gt have "k < c" by force
    with False in_es mx show ?thesis unfolding e unf by auto
  qed
qed

lemma count_list_pos: "x \<in> set xs \<Longrightarrow> 0 < count_list xs x"
  using count_list_0_iff [of xs x] by (cases "count_list xs x") auto

lemma getMostFrequentColor_none:
  assumes "\<forall>c\<in>set colors. c = 0"
  shows "getMostFrequentColor colors = 0"
proof -
  have "frequencyOf colors = []"
  proof (cases "frequencyOf colors")
    case Nil
    then show ?thesis .
  next
    case (Cons e es)
    then have "(fst e, snd e) \<in> set (frequencyOf colors)" by simp
    then have ne: "fst e \<noteq> 0" and mem: "fst e \<in> set colors"
      using frequencyOf_entries [of "fst e" "snd e" colors] by simp_all
    from assms mem have "fst e = 0" by (rule bspec)
    with ne show ?thesis by contradiction
  qed
  then show ?thesis by (simp add: getMostFrequentColor_def)
qed

lemma getMostFrequentColor_some:
  assumes "\<exists>c\<in>set colors. c \<noteq> 0"
  shows "getMostFrequentColor colors \<in> set colors \<and> getMostFrequentColor colors \<noteq> 0 \<and>
    (\<forall>c. c \<noteq> 0 \<longrightarrow> count_list colors c \<le> count_list colors (getMostFrequentColor colors)) \<and>
    (\<forall>c. c \<noteq> 0 \<and> c \<in> set colors \<and>
          count_list colors c = count_list colors (getMostFrequentColor colors)
          \<longrightarrow> getMostFrequentColor colors \<le> c)"
proof -
  let ?es = "frequencyOf colors"
  obtain M k where st: "foldl pickMax (0, 0) ?es = (M, k)"
    by (cases "foldl pickMax (0, 0) ?es")
  from assms obtain c0 where c0: "c0 \<in> set colors" "c0 \<noteq> 0" by blast
  then have ne: "?es \<noteq> []" using frequencyOf_entries [of c0 "count_list colors c0" colors] by auto
  have pos: "\<forall>e\<in>set ?es. 0 < snd e"
    using frequencyOf_entries [of _ _ colors] by (auto simp: count_list_pos)
  have srt: "sorted_wrt (<) (map fst ?es)" using frequencyOf_inv [of colors] by blast
  from foldl_pickMax_inv [OF srt pos] st ne
  have mem: "(k, M) \<in> set ?es"
    and mx: "\<forall>e\<in>set ?es. snd e \<le> M \<and> (snd e = M \<longrightarrow> k \<le> fst e)" by auto
  from mem have k: "k \<noteq> 0" "k \<in> set colors" "M = count_list colors k"
    by (simp_all add: frequencyOf_entries)
  have res: "getMostFrequentColor colors = k"
    using c0 st by (auto simp: getMostFrequentColor_def)
  have le: "count_list colors c \<le> count_list colors k" if "c \<noteq> 0" for c
  proof (cases "c \<in> set colors")
    case True
    with that have "(c, count_list colors c) \<in> set ?es" by (simp add: frequencyOf_entries)
    with mx k show ?thesis by fastforce
  next
    case False
    then show ?thesis by (simp add: count_list_0_iff)
  qed
  have first: "k \<le> c" if "c \<noteq> 0" "c \<in> set colors" "count_list colors c = count_list colors k" for c
  proof -
    from that have "(c, count_list colors c) \<in> set ?es" by (simp add: frequencyOf_entries)
    with mx k that show ?thesis by fastforce
  qed
  from k le first show ?thesis unfolding res by blast
qed

text \<open>
  C7. The colour code of a block is the most frequent non-black vote: when some vote is
  not black the result is a non-black vote whose number of occurrences no other non-black
  vote exceeds, and among the votes with that number it is the one of least index; when
  the list is empty or every vote is black the result is 0. Four red votes, two green
  votes and any number of black (unset) entries give red.
\<close>

theorem getMostFrequentColor_majority:
  "((\<exists>c\<in>set colors. c \<noteq> 0) \<longrightarrow>
      getMostFrequentColor colors \<in> set colors \<and> getMostFrequentColor colors \<noteq> 0 \<and>
      (\<forall>c. c \<noteq> 0 \<longrightarrow>
         count_list colors c \<le> count_list colors (getMostFrequentColor colors)) \<and>
      (\<forall>c. c \<noteq> 0 \<and> c \<in> set colors \<and>
            count_list colors c = count_list colors (getMostFrequentColor colors)
         \<longrightarrow> getMostFrequentColor colors \<le> c)) \<and>
   ((\<forall>c\<in>set colors. c = 0) \<longrightarrow> getMostFrequentColor colors = 0) \<and>
   getMostFrequentColor [] = 0 \<and>
   (set colors \<subseteq> {0, 2, 4} \<and> count_list colors 2 = 4 \<and> count_list colors 4 = 2
      \<longrightarrow> getMostFrequentColor colors = 2)"
proof -
  have ex: "getMostFrequentColor colors = 2"
    if h: "set colors \<subseteq> {0, 2, 4}" "count_list colors 2 = 4" "count_list colors 4 = 2"
  proof -
    have "2 \<in> set colors" using h(2) count_list_0_iff [of colors 2] by simp
    then have "\<exists>c\<in>set colors. c \<noteq> 0" by (intro bexI [of _ 2]) simp_all
    from getMostFrequentColor_some [OF this]
    have m: "getMostFrequentColor colors \<in> set colors" "getMostFrequentColor colors \<noteq> 0"
      and le: "count_list colors 2 \<le> count_list colors (getMostFrequentColor colors)"
      by simp_all
    from m(1) h(1) have "getMostFrequentColor colors \<in> {0, 2, 4}" by (rule subsetD [rotated])
    with m(2) have "getMostFrequentColor colors = 2 \<or> getMostFrequentColor colors = 4"
      by simp
    then show ?thesis
    proof
      assume "getMostFrequentColor colors = 4"
      with le h(2,3) show ?thesis by simp
    qed
  qed
  have e: "getMostFrequentColor [] = 0" by (simp add: getMostFrequentColor_def)
  show ?thesis
  proof (intro conjI impI)
    assume "\<exists>c\<in>set colors. c \<noteq> 0"
    from getMostFrequentColor_some [OF this]
    show "getMostFrequentColor colors \<in> set colors" "getMostFrequentColor colors \<noteq> 0"
      "\<forall>c. c \<noteq> 0 \<longrightarrow>
         count_list colors c \<le> count_list colors (getMostFrequentColor colors)"
      "\<forall>c. c \<noteq> 0 \<and> c \<in> set colors \<and>
            count_list colors c = count_list colors (getMostFrequentColor colors)
         \<longrightarrow> getMostFrequentColor colors \<le> c"
      by blast+
  next
    assume "\<forall>c\<in>set colors. c = 0"
    then show "getMostFrequentColor colors = 0" by (rule getMostFrequentColor_none)
  next
    show "getMostFrequentColor [] = 0" by (rule e)
  next
    assume "set colors \<subseteq> {0, 2, 4} \<and> count_list colors 2 = 4 \<and> count_list colors 4 = 2"
    then show "getMostFrequentColor colors = 2" using ex by blast
  qed
qed

theorem getMostFrequentColor_majority_witness:
  "getMostFrequentColor [2, 4, 2, 0, 2, 4, 2, 0] = 2 \<and>
   getMostFrequentColor [0, 0, 0] = 0 \<and>
   count_list [2, 4, 2, 0, 2, 4, 2, 0::nat] 4 \<le> count_list [2, 4, 2, 0, 2, 4, 2, 0::nat] 2"
proof -
  have h: "set [2, 4, 2, 0, 2, 4, 2, 0::nat] \<subseteq> {0, 2, 4} \<and>
      count_list [2, 4, 2, 0, 2, 4, 2, 0::nat] 2 = 4 \<and>
      count_list [2, 4, 2, 0, 2, 4, 2, 0::nat] 4 = 2"
    by simp
  have a: "getMostFrequentColor [2, 4, 2, 0, 2, 4, 2, 0] = 2"
    using getMostFrequentColor_majority [of "[2, 4, 2, 0, 2, 4, 2, 0]"] h by blast
  have z: "\<forall>c\<in>set [0, 0, 0::nat]. c = 0" by simp
  have b: "getMostFrequentColor [0, 0, 0] = 0"
    using getMostFrequentColor_majority [of "[0, 0, 0]"] z by blast
  have c: "count_list [2, 4, 2, 0, 2, 4, 2, 0::nat] 4 \<le> count_list [2, 4, 2, 0, 2, 4, 2, 0::nat] 2"
    by simp
  from a b c show ?thesis by blast
qed

section \<open>The colour-attribute table\<close>

subsection \<open>Skipping the leading white\<close>

lemma skipLeadingWhite_step:
  "i < length row \<Longrightarrow> row ! i = 7 \<Longrightarrow> skipLeadingWhite row i = skipLeadingWhite row (Suc i)"
  by (subst skipLeadingWhite.simps) simp

lemma skipLeadingWhite_done:
  "\<not> (i < length row \<and> row ! i = 7) \<Longrightarrow> skipLeadingWhite row i = i"
  by (subst skipLeadingWhite.simps) auto

lemma skipLeadingWhite_ge: "i \<le> skipLeadingWhite row i"
proof (induction row i rule: skipLeadingWhite.induct)
  case (1 rowColors startIndex)
  show ?case
  proof (cases "startIndex < length rowColors \<and> rowColors ! startIndex = 7")
    case True
    with 1 show ?thesis by (simp add: skipLeadingWhite_step)
  next
    case False
    then have "skipLeadingWhite rowColors startIndex = startIndex"
      by (rule skipLeadingWhite_done)
    then show ?thesis by simp
  qed
qed

lemma skipLeadingWhite_le: "i \<le> length row \<Longrightarrow> skipLeadingWhite row i \<le> length row"
proof (induction row i rule: skipLeadingWhite.induct)
  case (1 rowColors startIndex)
  show ?case
  proof (cases "startIndex < length rowColors \<and> rowColors ! startIndex = 7")
    case True
    with 1 show ?thesis by (simp add: skipLeadingWhite_step)
  next
    case False
    then have "skipLeadingWhite rowColors startIndex = startIndex"
      by (rule skipLeadingWhite_done)
    with "1.prems" show ?thesis by simp
  qed
qed

lemma skipLeadingWhite_white:
  "i \<le> j \<Longrightarrow> j < skipLeadingWhite row i \<Longrightarrow> row ! j = 7"
proof (induction row i rule: skipLeadingWhite.induct)
  case (1 rowColors startIndex)
  show ?case
  proof (cases "startIndex < length rowColors \<and> rowColors ! startIndex = 7")
    case True
    then have unf: "skipLeadingWhite rowColors startIndex = skipLeadingWhite rowColors (startIndex + 1)"
      by (simp add: skipLeadingWhite_step)
    show ?thesis
    proof (cases "j = startIndex")
      case True
      with \<open>startIndex < length rowColors \<and> rowColors ! startIndex = 7\<close> show ?thesis by simp
    next
      case False
      with "1.prems" have "startIndex + 1 \<le> j" by simp
      with 1 True unf show ?thesis by simp
    qed
  next
    case False
    then have "skipLeadingWhite rowColors startIndex = startIndex"
      by (rule skipLeadingWhite_done)
    with "1.prems" show ?thesis by simp
  qed
qed

lemma skipLeadingWhite_stop:
  "skipLeadingWhite row i < length row \<Longrightarrow> row ! skipLeadingWhite row i \<noteq> 7"
proof (induction row i rule: skipLeadingWhite.induct)
  case (1 rowColors startIndex)
  show ?case
  proof (cases "startIndex < length rowColors \<and> rowColors ! startIndex = 7")
    case True
    then have unf: "skipLeadingWhite rowColors startIndex = skipLeadingWhite rowColors (startIndex + 1)"
      by (simp add: skipLeadingWhite_step)
    with 1 True show ?thesis by simp
  next
    case False
    then have unf: "skipLeadingWhite rowColors startIndex = startIndex"
      by (rule skipLeadingWhite_done)
    with "1.prems" False show ?thesis by simp
  qed
qed

lemma skipLeadingWhite_all_white:
  assumes "\<forall>c\<in>set row. c = 7"
  shows "skipLeadingWhite row 0 = length row"
proof (rule ccontr)
  assume "skipLeadingWhite row 0 \<noteq> length row"
  with skipLeadingWhite_le [of 0 row] have lt: "skipLeadingWhite row 0 < length row" by simp
  then have "row ! skipLeadingWhite row 0 \<in> set row" by (rule nth_mem)
  with assms have "row ! skipLeadingWhite row 0 = 7" by (rule bspec)
  with skipLeadingWhite_stop [OF lt] show False by contradiction
qed

subsection \<open>The scan\<close>

lemma scanStep_black: "row ! x = 0 \<Longrightarrow> scanStep row st x = st"
  by (simp add: scanStep_def)

lemma scanStep_same: "int (row ! x) = currentColor st \<Longrightarrow> scanStep row st x = st"
  by (simp add: scanStep_def Let_def)

lemma scanStep_change:
  "row ! x \<noteq> 0 \<Longrightarrow> int (row ! x) \<noteq> currentColor st \<Longrightarrow>
   scanStep row st x =
     st\<lparr>attributePairs := attributePairs st @ [(x, getAttributeColorCode (row ! x))],
        currentColor := int (row ! x), changeCount := changeCount st + 1\<rparr>"
  by (simp add: scanStep_def Let_def)

lemma scanStep_cases:
  obtains (skip) "scanStep row st x = st" "row ! x = 0 \<or> int (row ! x) = currentColor st"
  | (change) "row ! x \<noteq> 0" "int (row ! x) \<noteq> currentColor st"
      "scanStep row st x =
         st\<lparr>attributePairs := attributePairs st @ [(x, getAttributeColorCode (row ! x))],
            currentColor := int (row ! x), changeCount := changeCount st + 1\<rparr>"
  using scanStep_black [of row x st] scanStep_same [of row x st] scanStep_change [of row x st]
  by blast

lemma scanStep_currentColor:
  "row ! x \<noteq> 0 \<Longrightarrow> currentColor (scanStep row st x) = int (row ! x)"
  by (rule scanStep_cases [of row st x]) auto

lemma getAttributeColorCode_black_iff: "getAttributeColorCode c = 0x18 \<longleftrightarrow> c = 0"
proof -
  have "c < 8 \<Longrightarrow> c = 0 \<or> c = 1 \<or> c = 2 \<or> c = 3 \<or> c = 4 \<or> c = 5 \<or> c = 6 \<or> c = 7"
    by arith
  then show ?thesis
    by (cases "c < 8") (auto simp: getAttributeColorCode_def)
qed

lemma getAttributeColorCode_table:
  "map getAttributeColorCode [0, 1, 2, 3, 4, 5, 6, 7] =
     [0x18, 0x38, 0x58, 0x78, 0x98, 0xB8, 0xD8, 0xF8]"
  by (simp add: getAttributeColorCode_def)

lemma scan_upt_Suc:
  "s \<le> n \<Longrightarrow> foldl (scanStep row) st0 [s..<Suc n] = scanStep row (foldl (scanStep row) st0 [s..<n]) n"
  by simp

lemma scan_inv:
  "s \<le> n \<Longrightarrow>
   (let st = foldl (scanStep row) scanInit [s..<n] in
      changeCount st = length (attributePairs st) \<and>
      sorted_wrt (<) (map fst (attributePairs st)) \<and>
      (\<forall>p\<in>set (attributePairs st).
         s \<le> fst p \<and> fst p < n \<and> row ! fst p \<noteq> 0 \<and> snd p = getAttributeColorCode (row ! fst p)) \<and>
      (attributePairs st = [] \<longrightarrow> currentColor st = - 1 \<and> (\<forall>x. s \<le> x \<and> x < n \<longrightarrow> row ! x = 0)) \<and>
      (attributePairs st \<noteq> [] \<longrightarrow> currentColor st = int (row ! fst (last (attributePairs st)))))"
proof (induction n)
  case 0
  then show ?case by (simp add: scanInit_def)
next
  case (Suc n)
  show ?case
  proof (cases "s = Suc n")
    case True
    then show ?thesis by (simp add: scanInit_def)
  next
    case False
    with Suc.prems have sn: "s \<le> n" by simp
    define st where "st = foldl (scanStep row) scanInit [s..<n]"
    have unf: "foldl (scanStep row) scanInit [s..<Suc n] = scanStep row st n"
      using sn by (simp add: st_def)
    from Suc.IH [OF sn] have
      cnt: "changeCount st = length (attributePairs st)" and
      srt: "sorted_wrt (<) (map fst (attributePairs st))" and
      prs: "\<forall>p\<in>set (attributePairs st).
         s \<le> fst p \<and> fst p < n \<and> row ! fst p \<noteq> 0 \<and> snd p = getAttributeColorCode (row ! fst p)" and
      emp: "attributePairs st = [] \<longrightarrow> currentColor st = - 1 \<and> (\<forall>x. s \<le> x \<and> x < n \<longrightarrow> row ! x = 0)" and
      cur: "attributePairs st \<noteq> [] \<longrightarrow> currentColor st = int (row ! fst (last (attributePairs st)))"
      by (simp_all add: st_def Let_def)
    show ?thesis
    proof (rule scanStep_cases [of row st n])
      assume eq: "scanStep row st n = st" and why: "row ! n = 0 \<or> int (row ! n) = currentColor st"
      have "row ! n = 0" if "attributePairs st = []"
        using that emp why by auto
      then have emp': "attributePairs st = [] \<longrightarrow>
          currentColor st = - 1 \<and> (\<forall>x. s \<le> x \<and> x < Suc n \<longrightarrow> row ! x = 0)"
        using emp by (auto simp: less_Suc_eq)
      have prs': "\<forall>p\<in>set (attributePairs st).
         s \<le> fst p \<and> fst p < Suc n \<and> row ! fst p \<noteq> 0 \<and> snd p = getAttributeColorCode (row ! fst p)"
        using prs by auto
      show ?thesis unfolding unf eq Let_def using cnt srt prs' emp' cur by blast
    next
      assume nz: "row ! n \<noteq> 0" and
        eq: "scanStep row st n =
          st\<lparr>attributePairs := attributePairs st @ [(n, getAttributeColorCode (row ! n))],
             currentColor := int (row ! n), changeCount := changeCount st + 1\<rparr>"
      have srt': "sorted_wrt (<) (map fst (attributePairs st @ [(n, getAttributeColorCode (row ! n))]))"
        using srt prs by (auto simp: sorted_wrt_append)
      have prs': "\<forall>p\<in>set (attributePairs st @ [(n, getAttributeColorCode (row ! n))]).
         s \<le> fst p \<and> fst p < Suc n \<and> row ! fst p \<noteq> 0 \<and> snd p = getAttributeColorCode (row ! fst p)"
        using prs nz sn by auto
      show ?thesis unfolding unf eq Let_def using cnt srt' prs' by simp
    qed
  qed
qed

lemma scanRow_eq:
  "scanRow row s (int (length row) - 1) = foldl (scanStep row) scanInit [s..<length row]"
  by (simp add: scanRow_def scanInit_def)

lemma scanRow_inv:
  assumes "s \<le> length row"
  defines "st \<equiv> scanRow row s (int (length row) - 1)"
  shows "changeCount st = length (attributePairs st)"
    and "sorted_wrt (<) (map fst (attributePairs st))"
    and "\<forall>p\<in>set (attributePairs st).
         s \<le> fst p \<and> fst p < length row \<and> row ! fst p \<noteq> 0 \<and>
         snd p = getAttributeColorCode (row ! fst p)"
    and "attributePairs st = [] \<longrightarrow> (\<forall>x. s \<le> x \<and> x < length row \<longrightarrow> row ! x = 0)"
    and "attributePairs st \<noteq> [] \<longrightarrow> currentColor st = int (row ! fst (last (attributePairs st)))"
  using scan_inv [OF assms(1), of row] unfolding st_def scanRow_eq Let_def by blast+

lemma scanRow_last_color:
  assumes "s < length row" and "last row \<noteq> 0"
  shows "currentColor (scanRow row s (int (length row) - 1)) = int (last row)"
proof -
  obtain n where n: "length row = Suc n" using assms(1) by (cases "length row") auto
  with assms(1) have sn: "s \<le> n" by simp
  have lst: "last row = row ! n" using n by (metis diff_Suc_1 last_conv_nth length_0_conv nat.distinct(1))
  have "scanRow row s (int (length row) - 1) = foldl (scanStep row) scanInit [s..<length row]"
    by (rule scanRow_eq)
  also have "\<dots> = foldl (scanStep row) scanInit [s..<Suc n]" by (simp only: n)
  also have "\<dots> = scanStep row (foldl (scanStep row) scanInit [s..<n]) n"
    using sn by simp
  finally show ?thesis using assms(2) by (simp add: lst scanStep_currentColor)
qed

lemma scan_set_mono:
  "set (attributePairs st) \<subseteq> set (attributePairs (scanStep row st x))"
  by (rule scanStep_cases [of row st x]) auto

lemma scan_current_after:
  assumes "s < n" and "row ! (n - 1) \<noteq> 0"
  shows "currentColor (foldl (scanStep row) scanInit [s..<n]) = int (row ! (n - 1))"
proof -
  obtain m where m: "n = Suc m" using assms(1) by (cases n) auto
  with assms(1) have "s \<le> m" by simp
  then have "foldl (scanStep row) scanInit [s..<Suc m] =
      scanStep row (foldl (scanStep row) scanInit [s..<m]) m" by simp
  with assms(2) show ?thesis unfolding m by (simp add: scanStep_currentColor)
qed

lemma scan_emits:
  "s \<le> n \<Longrightarrow> s < x \<Longrightarrow> x < n \<Longrightarrow> row ! x \<noteq> 0 \<Longrightarrow> row ! (x - 1) \<noteq> 0 \<Longrightarrow>
   row ! (x - 1) \<noteq> row ! x \<Longrightarrow>
   (x, getAttributeColorCode (row ! x)) \<in> set (attributePairs (foldl (scanStep row) scanInit [s..<n]))"
proof (induction n)
  case 0
  then show ?case by simp
next
  case (Suc n)
  from Suc.prems have sn: "s \<le> n" by simp
  define st where "st = foldl (scanStep row) scanInit [s..<n]"
  have unf: "foldl (scanStep row) scanInit [s..<Suc n] = scanStep row st n"
    using sn by (simp add: st_def)
  show ?case
  proof (cases "x = n")
    case True
    have "currentColor st = int (row ! (n - 1))"
      unfolding st_def using Suc.prems True by (intro scan_current_after) simp_all
    with Suc.prems True have "int (row ! n) \<noteq> currentColor st" by simp
    with Suc.prems True show ?thesis unfolding unf by (simp add: scanStep_change)
  next
    case False
    with Suc.prems have "x < n" by simp
    with Suc sn have "(x, getAttributeColorCode (row ! x)) \<in> set (attributePairs st)"
      by (simp add: st_def)
    with scan_set_mono [of st row n] show ?thesis unfolding unf by blast
  qed
qed

subsection \<open>The line of a row\<close>

lemma sep_join:
  "ss \<noteq> [] \<Longrightarrow> sep @ join sep ss = concat (map (\<lambda>s. sep @ s) ss)"
  by (induction sep ss rule: join.induct) simp_all

lemma fallbackLine_dataLine: "fallbackLine = dataLine 1 [(0, 0xF8)]"
  by code_simp

lemma colorAttributeLine_dataLine:
  "colorAttributeLine row = dataLine (length (encodedPairs row)) (encodedPairs row)"
proof -
  define start where "start = skipLeadingWhite row 0"
  define st where "st = scanRow row start (int (length row) - 1)"
  show ?thesis
  proof (cases "int start > int (length row) - 1 \<or> changeCount st = 0")
    case True
    then have "colorAttributeLine row = fallbackLine" "encodedPairs row = [(0, 0xF8)]"
      by (auto simp: colorAttributeLine_def encodedPairs_def Let_def start_def st_def)
    then show ?thesis by (simp add: fallbackLine_dataLine)
  next
    case False
    have le: "start \<le> length row" unfolding start_def by (rule skipLeadingWhite_le) simp
    have cnt: "changeCount st = length (attributePairs st)"
      unfolding st_def by (rule scanRow_inv(1) [OF le])
    with False have ne: "attributePairs st \<noteq> []" by auto
    have l: "colorAttributeLine row =
        DB @ toString10 (changeCount st) @ '', '' @ join '', '' (map pairString (attributePairs st))"
      using False by (simp add: colorAttributeLine_def Let_def start_def st_def)
    have e: "encodedPairs row = attributePairs st"
      using False by (simp add: encodedPairs_def Let_def start_def st_def)
    have "'', '' @ join '', '' (map pairString (attributePairs st)) =
        concat (map (\<lambda>s. '', '' @ s) (map pairString (attributePairs st)))"
      using ne by (intro sep_join) simp
    then show ?thesis
      unfolding l e dataLine_def cnt by (simp add: pairString_def comp_def)
  qed
qed

subsection \<open>From the rows to the table\<close>

lemma collect_Some:
  "collect f is = Some vs \<Longrightarrow> length vs = length is \<and> (\<forall>i<length is. f (is ! i) = Some (vs ! i))"
proof (induction "is" arbitrary: vs)
  case Nil
  then show ?case by simp
next
  case (Cons i "is")
  from Cons.prems obtain v vs' where v: "f i = Some v" and vs': "collect f is = Some vs'"
    and eq: "vs = v # vs'"
    by (auto split: option.splits)
  from Cons.IH [OF vs'] v show ?case unfolding eq by (auto simp: nth_Cons')
qed

lemma collect_all:
  "(\<forall>i\<in>set is. f i = Some (h i)) \<Longrightarrow> collect f is = Some (map h is)"
  by (induction "is") simp_all

lemma rowColorsOf_Some:
  assumes "rowColorsOf semiData y = Some row"
  shows "length row = width semiData"
    and "\<forall>x<width semiData. blockAt semiData y x \<noteq> None \<and>
           row ! x = colorCode (blocks semiData ! y ! x)"
proof -
  from collect_Some [OF assms [unfolded rowColorsOf_def]]
  have len: "length row = width semiData"
    and el: "\<forall>x<width semiData. map_option colorCode (blockAt semiData y x) = Some (row ! x)"
    by simp_all
  show "length row = width semiData" by (rule len)
  show "\<forall>x<width semiData. blockAt semiData y x \<noteq> None \<and>
           row ! x = colorCode (blocks semiData ! y ! x)"
  proof (intro allI impI)
    fix x assume "x < width semiData"
    with el have "map_option colorCode (blockAt semiData y x) = Some (row ! x)" by simp
    then show "blockAt semiData y x \<noteq> None \<and> row ! x = colorCode (blocks semiData ! y ! x)"
      by (auto simp: blockAt_def split: if_splits)
  qed
qed

lemma blockAt_rectangular:
  "rectangular semiData \<Longrightarrow> y < height semiData \<Longrightarrow> x < width semiData \<Longrightarrow>
   blockAt semiData y x = Some (blocks semiData ! y ! x)"
  by (simp add: rectangular_def blockAt_def)

lemma rowColorsOf_rectangular:
  assumes "rectangular semiData" and "y < height semiData"
  shows "rowColorsOf semiData y = Some (map colorCode (blocks semiData ! y))"
proof -
  have len: "length (blocks semiData ! y) = width semiData"
    using assms by (simp add: rectangular_def)
  have "rowColorsOf semiData y =
      Some (map (\<lambda>x. colorCode (blocks semiData ! y ! x)) [0..<width semiData])"
    unfolding rowColorsOf_def
    by (rule collect_all) (simp add: blockAt_rectangular [OF assms])
  also have "map (\<lambda>x. colorCode (blocks semiData ! y ! x)) [0..<width semiData] =
      map colorCode (blocks semiData ! y)"
    using len by (intro nth_equalityI) simp_all
  finally show ?thesis .
qed

lemma generateColorAttributeDB_Some:
  assumes "generateColorAttributeDB semiData labelPrefix = Some lines"
  shows "length lines = 2 + height semiData"
    and "\<forall>y<height semiData. \<exists>row. rowColorsOf semiData y = Some row \<and>
           lines ! (2 + y) = colorAttributeLine row"
proof -
  from assms obtain rows where
    rows: "collect (\<lambda>y. map_option colorAttributeLine (rowColorsOf semiData y))
             [0..<height semiData] = Some rows"
    and lines: "lines = headerLines colorAttributeTitle semiData labelPrefix @ rows"
    by (auto simp: generateColorAttributeDB_def)
  from collect_Some [OF rows] have len: "length rows = height semiData"
    and el: "\<forall>y<height semiData.
        map_option colorAttributeLine (rowColorsOf semiData y) = Some (rows ! y)"
    by simp_all
  have hl: "length (headerLines colorAttributeTitle semiData labelPrefix) = 2"
    by (simp add: headerLines_def)
  show "length lines = 2 + height semiData" using len hl lines by simp
  show "\<forall>y<height semiData. \<exists>row. rowColorsOf semiData y = Some row \<and>
           lines ! (2 + y) = colorAttributeLine row"
  proof (intro allI impI)
    fix y assume "y < height semiData"
    with el have "map_option colorAttributeLine (rowColorsOf semiData y) = Some (rows ! y)"
      by simp
    then obtain row where "rowColorsOf semiData y = Some row" "rows ! y = colorAttributeLine row"
      by auto
    moreover have "lines ! (2 + y) = rows ! y"
      unfolding lines using hl by (simp add: nth_append)
    ultimately show "\<exists>row. rowColorsOf semiData y = Some row \<and>
           lines ! (2 + y) = colorAttributeLine row" by simp
  qed
qed

lemma generateColorAttributeDB_rectangular:
  assumes "rectangular semiData"
  shows "generateColorAttributeDB semiData labelPrefix =
    Some (headerLines colorAttributeTitle semiData labelPrefix @
          map (\<lambda>row. colorAttributeLine (map colorCode row)) (blocks semiData))"
proof -
  have "collect (\<lambda>y. map_option colorAttributeLine (rowColorsOf semiData y)) [0..<height semiData] =
      Some (map (\<lambda>y. colorAttributeLine (map colorCode (blocks semiData ! y))) [0..<height semiData])"
    by (rule collect_all) (simp add: rowColorsOf_rectangular [OF assms])
  moreover have "map (\<lambda>y. colorAttributeLine (map colorCode (blocks semiData ! y))) [0..<height semiData] =
      map (\<lambda>row. colorAttributeLine (map colorCode row)) (blocks semiData)"
    using assms by (intro nth_equalityI) (simp_all add: rectangular_def)
  ultimately show ?thesis by (simp add: generateColorAttributeDB_def)
qed

subsection \<open>The pairs of a row\<close>

lemma encodedPairs_cases:
  obtains (fallback) "encodedPairs row = [(0, 0xF8)]" "colorAttributeLine row = fallbackLine"
      "skipLeadingWhite row 0 = length row \<or>
       changeCount (scanRow row (skipLeadingWhite row 0) (int (length row) - 1)) = 0"
  | (scan) "encodedPairs row =
        attributePairs (scanRow row (skipLeadingWhite row 0) (int (length row) - 1))"
      "skipLeadingWhite row 0 < length row"
      "changeCount (scanRow row (skipLeadingWhite row 0) (int (length row) - 1)) \<noteq> 0"
proof -
  have le: "skipLeadingWhite row 0 \<le> length row" by (rule skipLeadingWhite_le) simp
  show ?thesis
  proof (cases "skipLeadingWhite row 0 = length row \<or>
       changeCount (scanRow row (skipLeadingWhite row 0) (int (length row) - 1)) = 0")
    case True
    then have "encodedPairs row = [(0, 0xF8)]" "colorAttributeLine row = fallbackLine"
      by (auto simp: encodedPairs_def colorAttributeLine_def Let_def)
    then show ?thesis using True by (rule fallback)
  next
    case False
    with le have lt: "skipLeadingWhite row 0 < length row" by simp
    with False have "encodedPairs row =
        attributePairs (scanRow row (skipLeadingWhite row 0) (int (length row) - 1))"
      by (auto simp: encodedPairs_def Let_def)
    with lt False show ?thesis by (intro scan) simp_all
  qed
qed

lemma encodedPairs_props:
  "encodedPairs row \<noteq> [] \<and> sorted_wrt (<) (map fst (encodedPairs row)) \<and>
   (\<forall>p\<in>set (encodedPairs row). snd p \<noteq> 0x18) \<and>
   (\<forall>p\<in>set (encodedPairs row). fst p < max 1 (length row))"
proof (rule encodedPairs_cases [of row])
  assume "encodedPairs row = [(0, 0xF8)]"
  then show ?thesis by simp
next
  let ?s = "skipLeadingWhite row 0"
  let ?st = "scanRow row ?s (int (length row) - 1)"
  assume e: "encodedPairs row = attributePairs ?st" and lt: "?s < length row"
    and c: "changeCount ?st \<noteq> 0"
  from lt have le: "?s \<le> length row" by simp
  note inv = scanRow_inv [OF le]
  from inv(1) c have "attributePairs ?st \<noteq> []" by auto
  moreover have "\<forall>p\<in>set (attributePairs ?st). snd p \<noteq> 0x18"
    using inv(3) getAttributeColorCode_black_iff by metis
  moreover have "\<forall>p\<in>set (attributePairs ?st). fst p < max 1 (length row)"
    using inv(3) by auto
  ultimately show ?thesis unfolding e using inv(2) by blast
qed

subsection \<open>The claims on the colour-attribute table\<close>

lemma fallbackLine_literal: "fallbackLine = DB @ ''1, 0, $F8''"
  by (simp add: fallbackLine_def)

lemma scanRow_no_change:
  assumes "\<forall>i<length row. skipLeadingWhite row 0 \<le> i \<longrightarrow> row ! i = 0"
  shows "changeCount (scanRow row (skipLeadingWhite row 0) (int (length row) - 1)) = 0"
proof -
  let ?s = "skipLeadingWhite row 0"
  let ?st = "scanRow row ?s (int (length row) - 1)"
  have le: "?s \<le> length row" by (rule skipLeadingWhite_le) simp
  note inv = scanRow_inv [OF le]
  have "attributePairs ?st = []"
  proof (cases "attributePairs ?st")
    case Nil
    then show ?thesis .
  next
    case (Cons p ps)
    then have "p \<in> set (attributePairs ?st)" by simp
    with inv(3) have "?s \<le> fst p \<and> fst p < length row \<and> row ! fst p \<noteq> 0 \<and>
        snd p = getAttributeColorCode (row ! fst p)" by (rule bspec)
    with assms [rule_format, of "fst p"] show ?thesis by simp
  qed
  with inv(1) show ?thesis by simp
qed

lemma colorAttributeLine_fallback:
  "skipLeadingWhite row 0 = length row \<or>
   changeCount (scanRow row (skipLeadingWhite row 0) (int (length row) - 1)) = 0 \<Longrightarrow>
   colorAttributeLine row = fallbackLine"
  by (auto simp: colorAttributeLine_def Let_def)

lemma all_black_no_change:
  assumes "\<forall>c\<in>set row. c = 0"
  shows "changeCount (scanRow row (skipLeadingWhite row 0) (int (length row) - 1)) = 0"
proof (rule scanRow_no_change, intro allI impI)
  fix i assume "i < length row"
  then have "row ! i \<in> set row" by (rule nth_mem)
  with assms show "row ! i = 0" by (rule bspec)
qed

text \<open>
  C6. A row that is entirely white, a row that is entirely black, and any row whose scan
  counts no change (after the leading white only black is left) are written as the same
  line \<open>\tDB\t1, 0, $F8\<close>: count 1 and the pair of position 0 with the attribute byte of
  white, which differs from the attribute byte of black.
\<close>

theorem generateColorAttributeDB_fallback:
  assumes "generateColorAttributeDB semiData labelPrefix = Some lines"
    and "y < height semiData"
    and "rowColorsOf semiData y = Some row"
  shows "((\<forall>c\<in>set row. c = 7) \<longrightarrow> lines ! (2 + y) = DB @ ''1, 0, $F8'') \<and>
    (changeCount (scanRow row (skipLeadingWhite row 0) (int (length row) - 1)) = 0
       \<longrightarrow> lines ! (2 + y) = DB @ ''1, 0, $F8'') \<and>
    ((\<forall>i<length row. skipLeadingWhite row 0 \<le> i \<longrightarrow> row ! i = 0)
       \<longrightarrow> lines ! (2 + y) = DB @ ''1, 0, $F8'') \<and>
    ((\<forall>c\<in>set row. c = 0) \<longrightarrow> lines ! (2 + y) = DB @ ''1, 0, $F8'') \<and>
    DB @ ''1, 0, $F8'' = dataLine 1 [(0, getAttributeColorCode 7)] \<and>
    getAttributeColorCode 7 = 0xF8 \<and> getAttributeColorCode 0 = 0x18"
proof -
  from generateColorAttributeDB_Some(2) [OF assms(1)] assms(2,3)
  have line: "lines ! (2 + y) = colorAttributeLine row" by auto
  have a: "lines ! (2 + y) = DB @ ''1, 0, $F8''" if "\<forall>c\<in>set row. c = 7"
    unfolding line
    using skipLeadingWhite_all_white [OF that] colorAttributeLine_fallback [of row]
    by (simp add: fallbackLine_literal)
  have b: "lines ! (2 + y) = DB @ ''1, 0, $F8''"
    if "changeCount (scanRow row (skipLeadingWhite row 0) (int (length row) - 1)) = 0"
    unfolding line
    using that colorAttributeLine_fallback [of row] by (simp add: fallbackLine_literal)
  have c: "lines ! (2 + y) = DB @ ''1, 0, $F8''"
    if "\<forall>i<length row. skipLeadingWhite row 0 \<le> i \<longrightarrow> row ! i = 0"
    using scanRow_no_change [OF that] b by simp
  have d: "lines ! (2 + y) = DB @ ''1, 0, $F8''" if "\<forall>c\<in>set row. c = 0"
    using all_black_no_change [OF that] b by simp
  have e: "getAttributeColorCode 7 = 0xF8" "getAttributeColorCode 0 = 0x18"
    by (simp_all add: getAttributeColorCode_def)
  have f: "DB @ ''1, 0, $F8'' = dataLine 1 [(0, getAttributeColorCode 7)]"
    using fallbackLine_dataLine by (simp add: e fallbackLine_literal)
  from a b c d e f show ?thesis by blast
qed

theorem generateColorAttributeDB_fallback_witness:
  "generateColorAttributeDB
     \<lparr>width = 3, height = 2,
      blocks = [[\<lparr>pattern = 0, colorCode = 7\<rparr>, \<lparr>pattern = 0, colorCode = 7\<rparr>,
                 \<lparr>pattern = 0, colorCode = 7\<rparr>],
                [\<lparr>pattern = 0, colorCode = 0\<rparr>, \<lparr>pattern = 0, colorCode = 0\<rparr>,
                 \<lparr>pattern = 0, colorCode = 0\<rparr>]]\<rparr> ''ALL_WHITE''
   = Some [''; '' @ colorAttributeTitle @ '' (3x2)'', ''ALL_WHITE:'',
           DB @ ''1, 0, $F8'', DB @ ''1, 0, $F8''] \<and>
   [''; '' @ colorAttributeTitle @ '' (3x2)'', ''ALL_WHITE:'',
      DB @ ''1, 0, $F8'', DB @ ''1, 0, $F8''] ! (2 + 0) = DB @ ''1, 0, $F8'' \<and>
   [''; '' @ colorAttributeTitle @ '' (3x2)'', ''ALL_WHITE:'',
      DB @ ''1, 0, $F8'', DB @ ''1, 0, $F8''] ! (2 + 1) = DB @ ''1, 0, $F8''"
proof -
  let ?g = "\<lparr>width = 3, height = 2,
      blocks = [[\<lparr>pattern = 0, colorCode = 7\<rparr>, \<lparr>pattern = 0, colorCode = 7\<rparr>,
                 \<lparr>pattern = 0, colorCode = 7\<rparr>],
                [\<lparr>pattern = 0, colorCode = 0\<rparr>, \<lparr>pattern = 0, colorCode = 0\<rparr>,
                 \<lparr>pattern = 0, colorCode = 0\<rparr>]]\<rparr>"
  let ?lines = "[''; '' @ colorAttributeTitle @ '' (3x2)'', ''ALL_WHITE:'',
      DB @ ''1, 0, $F8'', DB @ ''1, 0, $F8'']"
  have g: "generateColorAttributeDB ?g ''ALL_WHITE'' = Some ?lines" by code_simp
  have r0: "rowColorsOf ?g 0 = Some [7, 7, 7]" and r1: "rowColorsOf ?g 1 = Some [0, 0, 0]"
    by code_simp+
  have y0: "0 < height ?g" and y1: "1 < height ?g" by simp_all
  have w: "\<forall>c\<in>set [7, 7, 7::nat]. c = 7" and k: "\<forall>c\<in>set [0, 0, 0::nat]. c = 0" by simp_all
  from generateColorAttributeDB_fallback [OF g y0 r0] w
  have a: "?lines ! (2 + 0) = DB @ ''1, 0, $F8''" by blast
  from generateColorAttributeDB_fallback [OF g y1 r1] k
  have b: "?lines ! (2 + 1) = DB @ ''1, 0, $F8''" by blast
  from g a b show ?thesis by blast
qed

text \<open>
  C4. In the scan a black block leaves the state as it is (no pair, no new tracked colour,
  no count), and so does a block of the tracked colour; no pair collected by the scan
  stands at a black block, and no pair written on a line carries the attribute byte of
  black. The row blue, white, white, red, red, blue, white, blue, white, blue, white,
  white is written with count 9 and the pairs at positions 0, 1, 3, 5, 6, 7, 8, 9, 10.
\<close>

theorem generateColorAttributeDB_black_skipped:
  "(row ! x = 0 \<longrightarrow> scanStep row st x = st) \<and>
   (int (row ! x) = currentColor st \<longrightarrow> scanStep row st x = st) \<and>
   (\<forall>p\<in>set (attributePairs (scanRow row (skipLeadingWhite row 0) (int (length row) - 1))).
      row ! fst p \<noteq> 0) \<and>
   (\<forall>p\<in>set (encodedPairs row). snd p \<noteq> getAttributeColorCode 0) \<and>
   colorAttributeLine row = dataLine (length (encodedPairs row)) (encodedPairs row) \<and>
   encodedPairs [1, 7, 7, 2, 2, 1, 7, 1, 7, 1, 7, 7] =
     [(0, 0x38), (1, 0xF8), (3, 0x58), (5, 0x38), (6, 0xF8), (7, 0x38), (8, 0xF8), (9, 0x38),
      (10, 0xF8)] \<and>
   generateColorAttributeDB
     \<lparr>width = 12, height = 1,
      blocks = [map (\<lambda>c. \<lparr>pattern = 0, colorCode = c\<rparr>) [1, 7, 7, 2, 2, 1, 7, 1, 7, 1, 7, 7]]\<rparr>
     ''TEST_ATTR''
   = Some [''; '' @ colorAttributeTitle @ '' (12x1)'', ''TEST_ATTR:'',
           DB @ ''9, 0, $38, 1, $F8, 3, $58, 5, $38, 6, $F8, 7, $38, 8, $F8, 9, $38, 10, $F8'']"
proof -
  let ?s = "skipLeadingWhite row 0"
  have le: "?s \<le> length row" by (rule skipLeadingWhite_le) simp
  have a: "row ! x = 0 \<longrightarrow> scanStep row st x = st"
    by (simp add: scanStep_black)
  have b: "int (row ! x) = currentColor st \<longrightarrow> scanStep row st x = st"
    by (simp add: scanStep_same)
  have c: "\<forall>p\<in>set (attributePairs (scanRow row ?s (int (length row) - 1))). row ! fst p \<noteq> 0"
    using scanRow_inv(3) [OF le] by simp
  have d: "\<forall>p\<in>set (encodedPairs row). snd p \<noteq> getAttributeColorCode 0"
    using encodedPairs_props [of row] by (simp add: getAttributeColorCode_def)
  have e: "encodedPairs [1, 7, 7, 2, 2, 1, 7, 1, 7, 1, 7, 7] =
     [(0, 0x38), (1, 0xF8), (3, 0x58), (5, 0x38), (6, 0xF8), (7, 0x38), (8, 0xF8), (9, 0x38),
      (10, 0xF8)]"
    by code_simp
  have f: "generateColorAttributeDB
     \<lparr>width = 12, height = 1,
      blocks = [map (\<lambda>c. \<lparr>pattern = 0, colorCode = c\<rparr>) [1, 7, 7, 2, 2, 1, 7, 1, 7, 1, 7, 7]]\<rparr>
     ''TEST_ATTR''
   = Some [''; '' @ colorAttributeTitle @ '' (12x1)'', ''TEST_ATTR:'',
           DB @ ''9, 0, $38, 1, $F8, 3, $58, 5, $38, 6, $F8, 7, $38, 8, $F8, 9, $38, 10, $F8'']"
    by code_simp
  from a b c d e f colorAttributeLine_dataLine [of row] show ?thesis by (intro conjI)
qed

theorem generateColorAttributeDB_black_skipped_witness:
  "scanStep [2, 0, 0, 1] scanInit 1 = scanInit \<and>
   scanStep [2, 2, 0, 1] (scanStep [2, 2, 0, 1] scanInit 0) 1 = scanStep [2, 2, 0, 1] scanInit 0 \<and>
   encodedPairs [2, 0, 0, 1] = [(0, 0x58), (3, 0x38)] \<and>
   [2, 0, 0, 1] ! fst (0, 0x58::nat) \<noteq> (0::nat) \<and> snd (3::nat, 0x38::nat) \<noteq> getAttributeColorCode 0"
proof -
  have a: "scanStep [2, 0, 0, 1] scanInit 1 = scanInit"
    using generateColorAttributeDB_black_skipped [of "[2, 0, 0, 1]" 1 scanInit] by simp
  have cur: "int ([2, 2, 0, 1] ! 1) = currentColor (scanStep [2, 2, 0, 1] scanInit 0)"
    by (simp add: scanStep_def scanInit_def)
  have b: "scanStep [2, 2, 0, 1] (scanStep [2, 2, 0, 1] scanInit 0) 1 = scanStep [2, 2, 0, 1] scanInit 0"
    using generateColorAttributeDB_black_skipped
      [of "[2, 2, 0, 1]" 1 "scanStep [2, 2, 0, 1] scanInit 0"] cur by blast
  have e: "encodedPairs [2, 0, 0, 1] = [(0, 0x58), (3, 0x38)]" by code_simp
  have m: "(3, 0x38) \<in> set (encodedPairs [2, 0, 0, 1])" unfolding e by simp
  have "\<forall>p\<in>set (encodedPairs [2, 0, 0, 1]). snd p \<noteq> getAttributeColorCode 0"
    using generateColorAttributeDB_black_skipped [of "[2, 0, 0, 1]" 1 scanInit] by (elim conjE)
  from this m have c: "snd (3::nat, 0x38::nat) \<noteq> getAttributeColorCode 0" by (rule bspec)
  have d: "[2, 0, 0, 1] ! fst (0, 0x58::nat) \<noteq> (0::nat)" by simp
  from a b e c d show ?thesis by (intro conjI)
qed

lemma encodedPairs_Nil: "encodedPairs [] = [(0, 0xF8)]"
  by (rule encodedPairs_cases [of "[]"]) simp_all

text \<open>
  C10, as the claim states it, fails on a grid of width 0: the converter gives such a grid
  for a buffer of no columns, its row is empty, and the line written for the row is the
  fallback line, whose pair stands at position 0, which is not below the width.
\<close>

theorem zero_width_counterexample:
  "convertImageDataToSemiGraphic \<lparr>pixelWidth = 0, pixelHeight = 4, data = []\<rparr>
     = \<lparr>width = 0, height = 1, blocks = [[]]\<rparr> \<and>
   generateColorAttributeDB \<lparr>width = 0, height = 1, blocks = [[]]\<rparr> ''ATTR''
     = Some [''; '' @ colorAttributeTitle @ '' (0x1)'', ''ATTR:'', DB @ ''1, 0, $F8''] \<and>
   rowColorsOf \<lparr>width = 0, height = 1, blocks = [[]]\<rparr> 0 = Some [] \<and>
   encodedPairs [] = [(0, 0xF8)] \<and>
   DB @ ''1, 0, $F8'' = dataLine 1 [(0, 0xF8)] \<and>
   width \<lparr>width = 0, height = 1, blocks = [[]]\<rparr> \<le> fst (0::nat, 0xF8::nat)"
proof -
  have a: "convertImageDataToSemiGraphic \<lparr>pixelWidth = 0, pixelHeight = 4, data = []\<rparr>
     = \<lparr>width = 0, height = 1, blocks = [[]]\<rparr>"
    by (simp add: convertImageDataToSemiGraphic_def ceilDiv_def Let_def)
  have b: "generateColorAttributeDB \<lparr>width = 0, height = 1, blocks = [[]]\<rparr> ''ATTR''
     = Some [''; '' @ colorAttributeTitle @ '' (0x1)'', ''ATTR:'', DB @ ''1, 0, $F8'']"
    by code_simp
  have c: "rowColorsOf \<lparr>width = 0, height = 1, blocks = [[]]\<rparr> 0 = Some []"
    by (simp add: rowColorsOf_def)
  have d: "DB @ ''1, 0, $F8'' = dataLine 1 [(0, 0xF8)]"
    using fallbackLine_dataLine by (simp add: fallbackLine_def)
  from a b c d encodedPairs_Nil show ?thesis by simp
qed

text \<open>
  C10, amended. Whenever the table is produced, it has one data line per row after the
  two header lines, and each data line is the count followed by as many pairs as the
  count says, with strictly increasing positions. For a grid of positive width all
  positions lie below the width; for a grid of width 0 every line is the fallback line
  with its single pair at position 0. The table is produced for every rectangular grid.
\<close>

theorem generateColorAttributeDB_wellFormed:
  assumes "generateColorAttributeDB semiData labelPrefix = Some lines"
  shows "length lines = 2 + height semiData \<and>
    (\<forall>y<height semiData. \<exists>row. rowColorsOf semiData y = Some row \<and>
       lines ! (2 + y) = dataLine (length (encodedPairs row)) (encodedPairs row) \<and>
       sorted_wrt (<) (map fst (encodedPairs row)) \<and>
       (0 < width semiData \<longrightarrow> (\<forall>p\<in>set (encodedPairs row). fst p < width semiData)) \<and>
       (width semiData = 0 \<longrightarrow> encodedPairs row = [(0, 0xF8)])) \<and>
    (\<forall>g l. rectangular g \<longrightarrow> generateColorAttributeDB g l \<noteq> None)"
proof -
  have "\<exists>row. rowColorsOf semiData y = Some row \<and>
       lines ! (2 + y) = dataLine (length (encodedPairs row)) (encodedPairs row) \<and>
       sorted_wrt (<) (map fst (encodedPairs row)) \<and>
       (0 < width semiData \<longrightarrow> (\<forall>p\<in>set (encodedPairs row). fst p < width semiData)) \<and>
       (width semiData = 0 \<longrightarrow> encodedPairs row = [(0, 0xF8)])" if y: "y < height semiData" for y
  proof -
    from generateColorAttributeDB_Some(2) [OF assms(1)] y obtain row where
      row: "rowColorsOf semiData y = Some row" and line: "lines ! (2 + y) = colorAttributeLine row"
      by auto
    have len: "length row = width semiData" by (rule rowColorsOf_Some(1) [OF row])
    have srt: "sorted_wrt (<) (map fst (encodedPairs row))"
      using encodedPairs_props [of row] by simp
    have pos: "\<forall>p\<in>set (encodedPairs row). fst p < width semiData" if "0 < width semiData"
    proof -
      from that len have mx: "max 1 (length row) = width semiData" by simp
      show ?thesis using encodedPairs_props [of row] unfolding mx by simp
    qed
    have zero: "encodedPairs row = [(0, 0xF8)]" if "width semiData = 0"
      using that len encodedPairs_Nil by simp
    from row line srt pos zero colorAttributeLine_dataLine [of row] show ?thesis by simp
  qed
  moreover have "\<forall>g l. rectangular g \<longrightarrow> generateColorAttributeDB g l \<noteq> None"
    by (simp add: generateColorAttributeDB_rectangular)
  ultimately show ?thesis
    using generateColorAttributeDB_Some(1) [OF assms(1)] by simp
qed

theorem generateColorAttributeDB_wellFormed_witness:
  "generateColorAttributeDB
     \<lparr>width = 5, height = 1,
      blocks = [map (\<lambda>c. \<lparr>pattern = 0, colorCode = c\<rparr>) [7, 2, 1, 7, 7]]\<rparr> ''TRIM_WHITE''
     = Some [''; '' @ colorAttributeTitle @ '' (5x1)'', ''TRIM_WHITE:'',
             DB @ ''3, 1, $58, 2, $38, 3, $F8''] \<and>
   DB @ ''3, 1, $58, 2, $38, 3, $F8'' = dataLine 3 [(1, 0x58), (2, 0x38), (3, 0xF8)] \<and>
   sorted_wrt (<) (map fst [(1::nat, 0x58::nat), (2, 0x38), (3, 0xF8)]) \<and>
   fst (3::nat, 0xF8::nat) < (5::nat)"
proof -
  let ?g = "\<lparr>width = 5, height = 1,
      blocks = [map (\<lambda>c. \<lparr>pattern = 0, colorCode = c\<rparr>) [7, 2, 1, 7, 7]]\<rparr>"
  let ?lines = "[''; '' @ colorAttributeTitle @ '' (5x1)'', ''TRIM_WHITE:'',
             DB @ ''3, 1, $58, 2, $38, 3, $F8'']"
  have g: "generateColorAttributeDB ?g ''TRIM_WHITE'' = Some ?lines" by code_simp
  have w: "0 < width ?g" by simp
  have r: "rowColorsOf ?g 0 = Some [7, 2, 1, 7, 7]" by code_simp
  have e: "encodedPairs [7, 2, 1, 7, 7] = [(1, 0x58), (2, 0x38), (3, 0xF8)]" by code_simp
  have y0: "0 < height ?g" by simp
  from generateColorAttributeDB_wellFormed [OF g]
  have "\<forall>y<height ?g. \<exists>row. rowColorsOf ?g y = Some row \<and>
       ?lines ! (2 + y) = dataLine (length (encodedPairs row)) (encodedPairs row) \<and>
       sorted_wrt (<) (map fst (encodedPairs row)) \<and>
       (0 < width ?g \<longrightarrow> (\<forall>p\<in>set (encodedPairs row). fst p < width ?g)) \<and>
       (width ?g = 0 \<longrightarrow> encodedPairs row = [(0, 0xF8)])" by (elim conjE)
  then have "0 < height ?g \<longrightarrow> (\<exists>row. rowColorsOf ?g 0 = Some row \<and>
       ?lines ! (2 + 0) = dataLine (length (encodedPairs row)) (encodedPairs row) \<and>
       sorted_wrt (<) (map fst (encodedPairs row)) \<and>
       (0 < width ?g \<longrightarrow> (\<forall>p\<in>set (encodedPairs row). fst p < width ?g)) \<and>
       (width ?g = 0 \<longrightarrow> encodedPairs row = [(0, 0xF8)]))" by (rule spec)
  from this y0 have "\<exists>row. rowColorsOf ?g 0 = Some row \<and>
       ?lines ! (2 + 0) = dataLine (length (encodedPairs row)) (encodedPairs row) \<and>
       sorted_wrt (<) (map fst (encodedPairs row)) \<and>
       (0 < width ?g \<longrightarrow> (\<forall>p\<in>set (encodedPairs row). fst p < width ?g)) \<and>
       (width ?g = 0 \<longrightarrow> encodedPairs row = [(0, 0xF8)])" by (rule mp)
  then obtain row where rr: "rowColorsOf ?g 0 = Some row"
    and p: "?lines ! (2 + 0) = dataLine (length (encodedPairs row)) (encodedPairs row) \<and>
       sorted_wrt (<) (map fst (encodedPairs row)) \<and>
       (0 < width ?g \<longrightarrow> (\<forall>p\<in>set (encodedPairs row). fst p < width ?g)) \<and>
       (width ?g = 0 \<longrightarrow> encodedPairs row = [(0, 0xF8)])"
    by (elim exE conjE) (rule that, assumption, intro conjI)
  from rr r have rw: "row = [7, 2, 1, 7, 7]" by simp
  note t = p [unfolded rw e]
  have "DB @ ''3, 1, $58, 2, $38, 3, $F8'' = ?lines ! (2 + 0)" by simp
  also have "\<dots> = dataLine (length [(1::nat, 0x58::nat), (2, 0x38), (3, 0xF8)])
           [(1, 0x58), (2, 0x38), (3, 0xF8)]"
    by (rule t [THEN conjunct1])
  also have "length [(1::nat, 0x58::nat), (2, 0x38), (3, 0xF8)] = 3" by simp
  finally have d: "DB @ ''3, 1, $58, 2, $38, 3, $F8'' = dataLine 3 [(1, 0x58), (2, 0x38), (3, 0xF8)]" .
  have s: "sorted_wrt (<) (map fst [(1::nat, 0x58::nat), (2, 0x38), (3, 0xF8)])"
    by (rule t [THEN conjunct2, THEN conjunct1])
  have "0 < width ?g \<longrightarrow>
      (\<forall>p\<in>set [(1::nat, 0x58::nat), (2, 0x38), (3, 0xF8)]. fst p < width ?g)"
    by (rule t [THEN conjunct2, THEN conjunct2, THEN conjunct1])
  from this w have "\<forall>p\<in>set [(1::nat, 0x58::nat), (2, 0x38), (3, 0xF8)]. fst p < width ?g"
    by (rule mp)
  then have "\<forall>p\<in>set [(1::nat, 0x58::nat), (2, 0x38), (3, 0xF8)]. fst p < 5" by simp
  moreover have "(3, 0xF8) \<in> set [(1::nat, 0x58::nat), (2, 0x38), (3, 0xF8)]" by simp
  ultimately have b: "fst (3::nat, 0xF8::nat) < (5::nat)" by (rule bspec)
  from g d s b show ?thesis by (intro conjI)
qed

lemma scanRow_trailing_white:
  assumes lt: "skipLeadingWhite row 0 < length row" and w: "last row = 7"
  defines "st \<equiv> scanRow row (skipLeadingWhite row 0) (int (length row) - 1)"
  shows "changeCount st \<noteq> 0" and "snd (last (attributePairs st)) = 0xF8"
    and "row ! fst (last (attributePairs st)) = 7"
proof -
  let ?s = "skipLeadingWhite row 0"
  from lt have le: "?s \<le> length row" by simp
  note inv = scanRow_inv [OF le, folded st_def]
  from lt have ne: "row \<noteq> []" by auto
  have cur: "currentColor st = 7"
    unfolding st_def using scanRow_last_color [OF lt, of] w by simp
  have pne: "attributePairs st \<noteq> []"
  proof
    assume "attributePairs st = []"
    with inv(4) have z: "\<forall>x. ?s \<le> x \<and> x < length row \<longrightarrow> row ! x = 0" by simp
    from lt have "?s \<le> length row - 1 \<and> length row - 1 < length row" by arith
    with z have "row ! (length row - 1) = 0" by simp
    with w ne show False by (simp add: last_conv_nth)
  qed
  with inv(1) show "changeCount st \<noteq> 0" by simp
  from pne inv(5) cur have "int (row ! fst (last (attributePairs st))) = 7" by simp
  then show c7: "row ! fst (last (attributePairs st)) = 7" by simp
  from pne have "last (attributePairs st) \<in> set (attributePairs st)" by simp
  with inv(3) have "snd (last (attributePairs st)) =
      getAttributeColorCode (row ! fst (last (attributePairs st)))" by simp
  then show "snd (last (attributePairs st)) = 0xF8"
    unfolding c7 by (simp add: getAttributeColorCode_def)
qed

lemma scanRow_white_after_colour:
  assumes "skipLeadingWhite row 0 < x" and "x < length row" and "row ! x = 7"
    and "row ! (x - 1) \<noteq> 0" and "row ! (x - 1) \<noteq> 7"
  shows "(x, 0xF8) \<in> set (encodedPairs row)"
proof -
  let ?s = "skipLeadingWhite row 0"
  let ?st = "scanRow row ?s (int (length row) - 1)"
  have le: "?s \<le> length row" using assms(1,2) by simp
  have "(x, getAttributeColorCode (row ! x)) \<in>
      set (attributePairs (foldl (scanStep row) scanInit [?s..<length row]))"
    using le assms by (intro scan_emits) simp_all
  then have m: "(x, 0xF8) \<in> set (attributePairs ?st)"
    unfolding scanRow_eq assms(3) by (simp add: getAttributeColorCode_def)
  then have "attributePairs ?st \<noteq> []" by auto
  with scanRow_inv(1) [OF le] have c: "changeCount ?st \<noteq> 0" by simp
  show ?thesis
  proof (rule encodedPairs_cases [of row])
    assume "skipLeadingWhite row 0 = length row \<or> changeCount ?st = 0"
    with c assms(1,2) show ?thesis by simp
  next
    assume "encodedPairs row = attributePairs ?st"
    with m show ?thesis by simp
  qed
qed

text \<open>
  C5, as the claim states it, fails on the rows that are written as the fallback line:
  the row of three white blocks (the row of the repository's own test of that line) has
  its leading white run at positions 0 to 2, and its line names position 0; so does the
  row white, black.
\<close>

theorem leading_white_counterexample:
  "generateColorAttributeDB
     \<lparr>width = 3, height = 1,
      blocks = [map (\<lambda>c. \<lparr>pattern = 0, colorCode = c\<rparr>) [7, 7, 7]]\<rparr> ''ALL_WHITE''
     = Some [''; '' @ colorAttributeTitle @ '' (3x1)'', ''ALL_WHITE:'', DB @ ''1, 0, $F8''] \<and>
   DB @ ''1, 0, $F8'' = dataLine 1 [(0, 0xF8)] \<and>
   encodedPairs [7, 7, 7] = [(0, 0xF8)] \<and>
   skipLeadingWhite [7, 7, 7] 0 = 3 \<and>
   fst (0::nat, 0xF8::nat) < skipLeadingWhite [7, 7, 7] 0 \<and>
   encodedPairs [7, 0] = [(0, 0xF8)] \<and>
   skipLeadingWhite [7, 0] 0 = 1 \<and>
   fst (0::nat, 0xF8::nat) < skipLeadingWhite [7, 0] 0"
  by code_simp

text \<open>
  C5, amended. The skip stops at the first block that is not white. On every row whose
  scan counts a change, the pairs written are those of the scan and none of them stands
  in the leading white run; the other rows are written as the fallback pair. White at
  the end of the row is kept: a row that is not entirely white and ends in white has a
  white pair as its last pair, and every white block that directly follows a block of
  another colour than black has a pair of its own. The row white, red, blue, white, white
  is written with count 3 and the pairs (1,$58) (2,$38) (3,$F8).
\<close>

theorem generateColorAttributeDB_leading_white:
  fixes row :: "nat list"
  defines "start \<equiv> skipLeadingWhite row 0"
  defines "st \<equiv> scanRow row start (int (length row) - 1)"
  shows "start \<le> length row \<and> (\<forall>i < start. row ! i = 7) \<and>
    (start < length row \<longrightarrow> row ! start \<noteq> 7) \<and>
    (start < length row \<and> changeCount st \<noteq> 0 \<longrightarrow>
       encodedPairs row = attributePairs st \<and>
       (\<forall>p\<in>set (encodedPairs row). start \<le> fst p \<and> fst p < length row)) \<and>
    (start = length row \<or> changeCount st = 0 \<longrightarrow> encodedPairs row = [(0, 0xF8)]) \<and>
    (start < length row \<and> last row = 7 \<longrightarrow>
       changeCount st \<noteq> 0 \<and> snd (last (encodedPairs row)) = 0xF8 \<and>
       row ! fst (last (encodedPairs row)) = 7) \<and>
    (\<forall>x. start < x \<and> x < length row \<and> row ! x = 7 \<and> row ! (x - 1) \<noteq> 0 \<and> row ! (x - 1) \<noteq> 7
       \<longrightarrow> (x, 0xF8) \<in> set (encodedPairs row)) \<and>
    colorAttributeLine row = dataLine (length (encodedPairs row)) (encodedPairs row) \<and>
    encodedPairs [7, 2, 1, 7, 7] = [(1, 0x58), (2, 0x38), (3, 0xF8)] \<and>
    generateColorAttributeDB
      \<lparr>width = 5, height = 1,
       blocks = [map (\<lambda>c. \<lparr>pattern = 0, colorCode = c\<rparr>) [7, 2, 1, 7, 7]]\<rparr> ''TRIM_WHITE''
      = Some [''; '' @ colorAttributeTitle @ '' (5x1)'', ''TRIM_WHITE:'',
              DB @ ''3, 1, $58, 2, $38, 3, $F8'']"
proof -
  have le: "start \<le> length row" unfolding start_def by (rule skipLeadingWhite_le) simp
  have a: "\<forall>i < start. row ! i = 7"
    unfolding start_def using skipLeadingWhite_white [of 0 _ row] by simp
  have b: "start < length row \<longrightarrow> row ! start \<noteq> 7"
    unfolding start_def using skipLeadingWhite_stop [of row 0] by simp
  have enc: "encodedPairs row = attributePairs st" if "start < length row" "changeCount st \<noteq> 0"
    using that by (auto simp: encodedPairs_def Let_def start_def st_def)
  have c: "start < length row \<and> changeCount st \<noteq> 0 \<longrightarrow>
       encodedPairs row = attributePairs st \<and>
       (\<forall>p\<in>set (encodedPairs row). start \<le> fst p \<and> fst p < length row)"
  proof (intro impI, elim conjE)
    assume h: "start < length row" "changeCount st \<noteq> 0"
    have "\<forall>p\<in>set (attributePairs st). start \<le> fst p \<and> fst p < length row"
      using scanRow_inv(3) [OF le] unfolding st_def by simp
    with enc [OF h] show "encodedPairs row = attributePairs st \<and>
       (\<forall>p\<in>set (encodedPairs row). start \<le> fst p \<and> fst p < length row)" by simp
  qed
  have d: "start = length row \<or> changeCount st = 0 \<longrightarrow> encodedPairs row = [(0, 0xF8)]"
    by (auto simp: encodedPairs_def Let_def start_def st_def)
  have e: "start < length row \<and> last row = 7 \<longrightarrow>
       changeCount st \<noteq> 0 \<and> snd (last (encodedPairs row)) = 0xF8 \<and>
       row ! fst (last (encodedPairs row)) = 7"
  proof (intro impI, elim conjE)
    assume h: "start < length row" "last row = 7"
    note t = scanRow_trailing_white [OF h [unfolded start_def], folded start_def, folded st_def]
    from enc [OF h(1) t(1)] t show "changeCount st \<noteq> 0 \<and> snd (last (encodedPairs row)) = 0xF8 \<and>
       row ! fst (last (encodedPairs row)) = 7" by simp
  qed
  have f: "\<forall>x. start < x \<and> x < length row \<and> row ! x = 7 \<and> row ! (x - 1) \<noteq> 0 \<and> row ! (x - 1) \<noteq> 7
       \<longrightarrow> (x, 0xF8) \<in> set (encodedPairs row)"
    unfolding start_def using scanRow_white_after_colour [of row] by simp
  have g: "encodedPairs [7, 2, 1, 7, 7] = [(1, 0x58), (2, 0x38), (3, 0xF8)]" by code_simp
  have h: "generateColorAttributeDB
      \<lparr>width = 5, height = 1,
       blocks = [map (\<lambda>c. \<lparr>pattern = 0, colorCode = c\<rparr>) [7, 2, 1, 7, 7]]\<rparr> ''TRIM_WHITE''
      = Some [''; '' @ colorAttributeTitle @ '' (5x1)'', ''TRIM_WHITE:'',
              DB @ ''3, 1, $58, 2, $38, 3, $F8'']" by code_simp
  from le a b c d e f g h colorAttributeLine_dataLine [of row] show ?thesis by (intro conjI)
qed

theorem generateColorAttributeDB_leading_white_witness:
  "skipLeadingWhite [7, 2, 1, 7, 7] 0 = 1 \<and>
   [7, 2, 1, 7, 7] ! skipLeadingWhite [7, 2, 1, 7, 7] 0 \<noteq> (7::nat) \<and>
   encodedPairs [7, 2, 1, 7, 7] = [(1, 0x58), (2, 0x38), (3, 0xF8)] \<and>
   snd (last (encodedPairs [7, 2, 1, 7, 7])) = 0xF8 \<and>
   (3, 0xF8) \<in> set (encodedPairs [7, 2, 1, 7, 7])"
proof -
  note t = generateColorAttributeDB_leading_white [of "[7, 2, 1, 7, 7]"]
  have s: "skipLeadingWhite [7, 2, 1, 7, 7] 0 = 1" by code_simp
  have lt: "skipLeadingWhite [7, 2, 1, 7, 7] 0 < length [7, 2, 1, 7, 7::nat]"
    unfolding s by simp
  have lw: "last [7, 2, 1, 7, 7] = (7::nat)" by simp
  from t have "skipLeadingWhite [7, 2, 1, 7, 7] 0 < length [7, 2, 1, 7, 7::nat] \<longrightarrow>
      [7, 2, 1, 7, 7] ! skipLeadingWhite [7, 2, 1, 7, 7] 0 \<noteq> (7::nat)" by (elim conjE)
  with lt have a: "[7, 2, 1, 7, 7] ! skipLeadingWhite [7, 2, 1, 7, 7] 0 \<noteq> (7::nat)"
    by (rule mp [rotated])
  from t have e: "encodedPairs [7, 2, 1, 7, 7] = [(1, 0x58), (2, 0x38), (3, 0xF8)]"
    by (elim conjE)
  from t have "skipLeadingWhite [7, 2, 1, 7, 7] 0 < length [7, 2, 1, 7, 7::nat] \<and>
      last [7, 2, 1, 7, 7] = (7::nat) \<longrightarrow>
       changeCount (scanRow [7, 2, 1, 7, 7] (skipLeadingWhite [7, 2, 1, 7, 7] 0)
          (int (length [7, 2, 1, 7, 7::nat]) - 1)) \<noteq> 0 \<and>
       snd (last (encodedPairs [7, 2, 1, 7, 7])) = 0xF8 \<and>
       [7, 2, 1, 7, 7] ! fst (last (encodedPairs [7, 2, 1, 7, 7])) = (7::nat)" by (elim conjE)
  with lt lw have b: "snd (last (encodedPairs [7, 2, 1, 7, 7])) = 0xF8" by simp
  from t have "\<forall>x. skipLeadingWhite [7, 2, 1, 7, 7] 0 < x \<and> x < length [7, 2, 1, 7, 7::nat] \<and>
      [7, 2, 1, 7, 7] ! x = (7::nat) \<and> [7, 2, 1, 7, 7] ! (x - 1) \<noteq> (0::nat) \<and>
      [7, 2, 1, 7, 7] ! (x - 1) \<noteq> (7::nat)
       \<longrightarrow> (x, 0xF8) \<in> set (encodedPairs [7, 2, 1, 7, 7])" by (elim conjE)
  then have "skipLeadingWhite [7, 2, 1, 7, 7] 0 < 3 \<and> 3 < length [7, 2, 1, 7, 7::nat] \<and>
      [7, 2, 1, 7, 7] ! 3 = (7::nat) \<and> [7, 2, 1, 7, 7] ! (3 - 1) \<noteq> (0::nat) \<and>
      [7, 2, 1, 7, 7] ! (3 - 1) \<noteq> (7::nat)
       \<longrightarrow> (3, 0xF8) \<in> set (encodedPairs [7, 2, 1, 7, 7])" by (rule spec)
  moreover have "skipLeadingWhite [7, 2, 1, 7, 7] 0 < 3 \<and> 3 < length [7, 2, 1, 7, 7::nat] \<and>
      [7, 2, 1, 7, 7] ! 3 = (7::nat) \<and> [7, 2, 1, 7, 7] ! (3 - 1) \<noteq> (0::nat) \<and>
      [7, 2, 1, 7, 7] ! (3 - 1) \<noteq> (7::nat)"
    unfolding s by simp
  ultimately have c: "(3, 0xF8) \<in> set (encodedPairs [7, 2, 1, 7, 7])" by (rule mp)
  from s a e b c show ?thesis by (intro conjI)
qed

section \<open>The pattern table\<close>

subsection \<open>Chunks of sixteen\<close>

lemma chunkLines_step:
  "i < length dataBytes \<Longrightarrow>
   chunkLines dataBytes i = dbLine (take 16 (drop i dataBytes)) # chunkLines dataBytes (i + 16)"
  by (subst chunkLines.simps) (simp add: Let_def)

lemma chunkLines_done: "\<not> i < length dataBytes \<Longrightarrow> chunkLines dataBytes i = []"
  by (subst chunkLines.simps) simp

lemma chunkLines_chunks:
  "\<exists>chunks. chunkLines dataBytes i = map dbLine chunks \<and>
     concat chunks = drop i dataBytes \<and>
     (\<forall>c\<in>set chunks. 0 < length c \<and> length c \<le> 16) \<and>
     (\<forall>c\<in>set (butlast chunks). length c = 16) \<and>
     length chunks = ceilDiv (length dataBytes - i) 16"
proof (induction dataBytes i rule: chunkLines.induct)
  case (1 dataBytes i)
  show ?case
  proof (cases "i < length dataBytes")
    case False
    then have "chunkLines dataBytes i = map dbLine []" by (simp add: chunkLines_done)
    moreover from False have "concat [] = drop i dataBytes" by simp
    moreover from False have "length ([]::string list list) = ceilDiv (length dataBytes - i) 16"
      by (simp add: ceilDiv_def)
    ultimately show ?thesis by (intro exI [of _ "[]"]) simp
  next
    case True
    define c where "c = take 16 (drop i dataBytes)"
    from "1.IH" [OF True, of c] obtain chunks where
      l: "chunkLines dataBytes (i + 16) = map dbLine chunks" and
      cc: "concat chunks = drop (i + 16) dataBytes" and
      ln: "\<forall>c\<in>set chunks. 0 < length c \<and> length c \<le> 16" and
      bl: "\<forall>c\<in>set (butlast chunks). length c = 16" and
      n: "length chunks = ceilDiv (length dataBytes - (i + 16)) 16"
      unfolding c_def by blast
    have lc: "length c = min 16 (length dataBytes - i)" by (simp add: c_def)
    have a: "chunkLines dataBytes i = map dbLine (c # chunks)"
      using True l by (simp add: chunkLines_step c_def)
    have "concat (c # chunks) = take 16 (drop i dataBytes) @ drop 16 (drop i dataBytes)"
      using cc by (simp add: c_def add.commute)
    also have "\<dots> = drop i dataBytes" by (rule append_take_drop_id)
    finally have b: "concat (c # chunks) = drop i dataBytes" .
    have d: "\<forall>c'\<in>set (c # chunks). 0 < length c' \<and> length c' \<le> 16"
      using ln lc True by auto
    have e: "\<forall>c'\<in>set (butlast (c # chunks)). length c' = 16"
    proof (cases "chunks = []")
      case True
      then show ?thesis by simp
    next
      case False
      then have "0 < ceilDiv (length dataBytes - (i + 16)) 16" using n by (cases chunks) auto
      then have "i + 16 < length dataBytes"
        by (cases "i + 16 < length dataBytes") (simp_all add: ceilDiv_def)
      then have "length c = 16" using lc by simp
      with False bl show ?thesis by simp
    qed
    have f: "length (c # chunks) = ceilDiv (length dataBytes - i) 16"
    proof -
      have ar: "(m + 16 - 1) div 16 = Suc ((m - 16 + 16 - 1) div 16)" if "0 < m" for m :: nat
      proof (cases "m < 16")
        case True
        have "(m + 15) div 16 = 1" using that True by (intro div_nat_eqI) simp_all
        with True show ?thesis by simp
      next
        case False
        define k where "k = m - 16"
        with False have m: "m = k + 16" by simp
        have "(k + 15 + 16) div 16 = Suc ((k + 15) div 16)" by simp
        then show ?thesis unfolding m by (simp add: add.commute add.left_commute)
      qed
      have "length dataBytes - (i + 16) = length dataBytes - i - 16" by simp
      then have "ceilDiv (length dataBytes - i) 16 = Suc (ceilDiv (length dataBytes - (i + 16)) 16)"
        unfolding ceilDiv_def using ar [of "length dataBytes - i"] True by simp
      with n show ?thesis by simp
    qed
    from a b d e f show ?thesis by (intro exI [of _ "c # chunks"] conjI)
  qed
qed

subsection \<open>Fields of a data line\<close>

lemma digitChar_hex: "d < 16 \<Longrightarrow> digitChar d \<in> set ''0123456789abcdef''"
  unfolding digitChar_def by (rule nth_mem) simp

lemma toString16_chars: "set (toString16 n) \<subseteq> set ''0123456789abcdef''"
proof (induction n rule: toString16.induct)
  case (1 n)
  show ?case
  proof (cases "n < 16")
    case True
    then have "toString16 n = [digitChar n]" by (subst toString16.simps) simp
    with digitChar_hex [OF True] show ?thesis by simp
  next
    case False
    then have "toString16 n = toString16 (n div 16) @ [digitChar (n mod 16)]"
      by (subst toString16.simps) simp
    moreover have "digitChar (n mod 16) \<in> set ''0123456789abcdef''"
      by (rule digitChar_hex) simp
    ultimately show ?thesis using "1.IH" [OF False] by simp
  qed
qed

lemma hexLiteral_no_comma: "CHR '','' \<notin> set (hexLiteral n)"
proof -
  have "\<forall>c\<in>set ''0123456789abcdef''. upperChar c \<noteq> CHR '',''"
    by (simp add: upperChar_def)
  with toString16_chars [of n] have "\<forall>c\<in>set (toString16 n). upperChar c \<noteq> CHR '',''"
    by blast
  moreover have "upperChar CHR ''0'' \<noteq> CHR '',''" by (simp add: upperChar_def)
  ultimately show ?thesis
    by (auto simp: hexLiteral_def toUpperCase_def padStart2_def)
qed

lemma commas_join:
  "\<forall>s\<in>set ss. CHR '','' \<notin> set s \<Longrightarrow>
   length (filter (\<lambda>c. c = CHR '','') (join '', '' ss)) = length ss - 1"
proof (induction "'', ''" ss rule: join.induct)
  case 1
  then show ?case by simp
next
  case (2 s)
  then have "filter (\<lambda>c. c = CHR '','') s = []" by (auto simp: filter_empty_conv)
  then show ?case by simp
next
  case (3 s t ss)
  then have "filter (\<lambda>c. c = CHR '','') s = []" by (auto simp: filter_empty_conv)
  with 3 show ?case by simp
qed

lemma commaFields_dbLine:
  "chunk \<noteq> [] \<Longrightarrow> \<forall>s\<in>set chunk. CHR '','' \<notin> set s \<Longrightarrow> commaFields (dbLine chunk) = length chunk"
  by (simp add: commaFields_def dbLine_def DB_def commas_join)

subsection \<open>From the rows to the table\<close>

lemma rowDataBytes_rectangular:
  assumes "rectangular semiData" and "y < height semiData"
  shows "rowDataBytes semiData y =
    Some (map (\<lambda>block. hexLiteral (pattern block)) (blocks semiData ! y))"
proof -
  have len: "length (blocks semiData ! y) = width semiData"
    using assms by (simp add: rectangular_def)
  have "rowDataBytes semiData y =
      Some (map (\<lambda>x. hexLiteral (pattern (blocks semiData ! y ! x))) [0..<width semiData])"
    unfolding rowDataBytes_def
    by (rule collect_all) (simp add: blockAt_rectangular [OF assms])
  also have "map (\<lambda>x. hexLiteral (pattern (blocks semiData ! y ! x))) [0..<width semiData] =
      map (\<lambda>block. hexLiteral (pattern block)) (blocks semiData ! y)"
    using len by (intro nth_equalityI) simp_all
  finally show ?thesis .
qed

lemma generateSemiGraphicDB_rectangular:
  assumes "rectangular semiData"
  shows "generateSemiGraphicDB semiData labelPrefix =
    Some (headerLines semiGraphicTitle semiData labelPrefix @
          concat (map (\<lambda>y. chunkLines (map (\<lambda>block. hexLiteral (pattern block))
                                (blocks semiData ! y)) 0) [0..<height semiData]))"
proof -
  have "collect (\<lambda>y. map_option (\<lambda>dataBytes. chunkLines dataBytes 0) (rowDataBytes semiData y))
          [0..<height semiData] =
      Some (map (\<lambda>y. chunkLines (map (\<lambda>block. hexLiteral (pattern block))
                                (blocks semiData ! y)) 0) [0..<height semiData])"
    by (rule collect_all) (simp add: rowDataBytes_rectangular [OF assms])
  then show ?thesis by (simp add: generateSemiGraphicDB_def)
qed

lemma chunkLines_row:
  "\<exists>chunks. chunkLines (map (\<lambda>block. hexLiteral (pattern block)) row) 0 = map dbLine chunks \<and>
     concat chunks = map (\<lambda>block. hexLiteral (pattern block)) row \<and>
     (\<forall>c\<in>set chunks. 0 < length c \<and> length c \<le> 16 \<and> commaFields (dbLine c) = length c) \<and>
     (\<forall>c\<in>set (butlast chunks). length c = 16) \<and>
     length chunks = ceilDiv (length row) 16"
proof -
  let ?bytes = "map (\<lambda>block. hexLiteral (pattern block)) row"
  from chunkLines_chunks [of ?bytes 0] obtain chunks where
    l: "chunkLines ?bytes 0 = map dbLine chunks" and
    cc: "concat chunks = ?bytes" and
    ln: "\<forall>c\<in>set chunks. 0 < length c \<and> length c \<le> 16" and
    bl: "\<forall>c\<in>set (butlast chunks). length c = 16" and
    n: "length chunks = ceilDiv (length row) 16"
    by auto
  have "commaFields (dbLine c) = length c" if c: "c \<in> set chunks" for c
  proof (rule commaFields_dbLine)
    from ln c show "c \<noteq> []" by auto
    have "set c \<subseteq> set (concat chunks)" using c by auto
    then have "set c \<subseteq> set ?bytes" unfolding cc .
    then show "\<forall>s\<in>set c. CHR '','' \<notin> set s"
      using hexLiteral_no_comma by auto
  qed
  with ln have "\<forall>c\<in>set chunks. 0 < length c \<and> length c \<le> 16 \<and> commaFields (dbLine c) = length c"
    by simp
  with l cc bl n show ?thesis by (intro exI [of _ chunks] conjI)
qed

text \<open>
  C9. For a rectangular grid the pattern table is the two header lines followed, row after
  row, by the data lines of the row. The lines of a row hold the byte literals of the
  row's blocks in order, split into chunks of 16 with only the last chunk of the row
  possibly shorter; so every row starts a new line and has ceil(width / 16) lines, each
  with as many comma-separated fields as bytes. A single row of 20 blocks gives two data
  lines, of 16 and of 4 fields.
\<close>

theorem generateSemiGraphicDB_chunks:
  assumes "rectangular semiData"
  shows "\<exists>rows. length rows = height semiData \<and>
    generateSemiGraphicDB semiData labelPrefix =
      Some (headerLines semiGraphicTitle semiData labelPrefix @ concat (map (map dbLine) rows)) \<and>
    (\<forall>y<height semiData.
       concat (rows ! y) = map (\<lambda>block. hexLiteral (pattern block)) (blocks semiData ! y) \<and>
       (\<forall>c\<in>set (rows ! y). 0 < length c \<and> length c \<le> 16 \<and> commaFields (dbLine c) = length c) \<and>
       (\<forall>c\<in>set (butlast (rows ! y)). length c = 16) \<and>
       length (rows ! y) = ceilDiv (width semiData) 16) \<and>
    (width semiData = 20 \<and> height semiData = 1 \<longrightarrow>
       (\<exists>l1 l2. generateSemiGraphicDB semiData labelPrefix =
           Some (headerLines semiGraphicTitle semiData labelPrefix @ [l1, l2]) \<and>
         commaFields l1 = 16 \<and> commaFields l2 = 4))"
proof -
  let ?bytes = "\<lambda>y. map (\<lambda>block. hexLiteral (pattern block)) (blocks semiData ! y)"
  have "\<forall>y. \<exists>chunks. chunkLines (?bytes y) 0 = map dbLine chunks \<and>
     concat chunks = ?bytes y \<and>
     (\<forall>c\<in>set chunks. 0 < length c \<and> length c \<le> 16 \<and> commaFields (dbLine c) = length c) \<and>
     (\<forall>c\<in>set (butlast chunks). length c = 16) \<and>
     length chunks = ceilDiv (length (blocks semiData ! y)) 16"
    using chunkLines_row by blast
  then obtain f where f: "\<And>y. chunkLines (?bytes y) 0 = map dbLine (f y) \<and>
     concat (f y) = ?bytes y \<and>
     (\<forall>c\<in>set (f y). 0 < length c \<and> length c \<le> 16 \<and> commaFields (dbLine c) = length c) \<and>
     (\<forall>c\<in>set (butlast (f y)). length c = 16) \<and>
     length (f y) = ceilDiv (length (blocks semiData ! y)) 16"
    using choice [of "\<lambda>y chunks. chunkLines (?bytes y) 0 = map dbLine chunks \<and>
     concat chunks = ?bytes y \<and>
     (\<forall>c\<in>set chunks. 0 < length c \<and> length c \<le> 16 \<and> commaFields (dbLine c) = length c) \<and>
     (\<forall>c\<in>set (butlast chunks). length c = 16) \<and>
     length chunks = ceilDiv (length (blocks semiData ! y)) 16"]
    by auto
  define rows where "rows = map f [0..<height semiData]"
  have len: "length rows = height semiData" by (simp add: rows_def)
  have w: "length (blocks semiData ! y) = width semiData" if "y < height semiData" for y
    using assms that by (simp add: rectangular_def)
  have "map (\<lambda>y. chunkLines (?bytes y) 0) [0..<height semiData] = map (map dbLine) rows"
    unfolding rows_def using f by simp
  then have gen: "generateSemiGraphicDB semiData labelPrefix =
      Some (headerLines semiGraphicTitle semiData labelPrefix @ concat (map (map dbLine) rows))"
    by (simp add: generateSemiGraphicDB_rectangular [OF assms])
  have row: "concat (rows ! y) = ?bytes y \<and>
       (\<forall>c\<in>set (rows ! y). 0 < length c \<and> length c \<le> 16 \<and> commaFields (dbLine c) = length c) \<and>
       (\<forall>c\<in>set (butlast (rows ! y)). length c = 16) \<and>
       length (rows ! y) = ceilDiv (width semiData) 16" if y: "y < height semiData" for y
  proof -
    have "rows ! y = f y" using y by (simp add: rows_def)
    with f [of y] w [OF y] show ?thesis by simp
  qed
  have twenty: "\<exists>l1 l2. generateSemiGraphicDB semiData labelPrefix =
           Some (headerLines semiGraphicTitle semiData labelPrefix @ [l1, l2]) \<and>
         commaFields l1 = 16 \<and> commaFields l2 = 4"
    if h: "width semiData = 20" "height semiData = 1"
  proof -
    from len h obtain cs where rows1: "rows = [cs]" by (cases rows) auto
    from row [of 0] h rows1 have
      cc: "concat cs = ?bytes 0" and
      ln: "\<forall>c\<in>set cs. 0 < length c \<and> length c \<le> 16 \<and> commaFields (dbLine c) = length c" and
      bl: "\<forall>c\<in>set (butlast cs). length c = 16" and
      n: "length cs = ceilDiv 20 16"
      by simp_all
    have "ceilDiv 20 16 = 2" by (simp add: ceilDiv_def)
    with n have "length cs = 2" by simp
    then obtain c1 c2 where cs: "cs = [c1, c2]"
      by (cases cs; cases "tl cs") auto
    from bl have l1: "length c1 = 16" unfolding cs by simp
    have "length (concat cs) = 20" unfolding cc using w [of 0] h by simp
    with l1 have l2: "length c2 = 4" unfolding cs by simp
    from ln l1 l2 have "commaFields (dbLine c1) = 16" "commaFields (dbLine c2) = 4"
      unfolding cs by simp_all
    moreover have "generateSemiGraphicDB semiData labelPrefix =
           Some (headerLines semiGraphicTitle semiData labelPrefix @ [dbLine c1, dbLine c2])"
      unfolding gen rows1 cs by simp
    ultimately show ?thesis by blast
  qed
  from len gen row twenty show ?thesis by (intro exI [of _ rows]) simp
qed

theorem generateSemiGraphicDB_chunks_witness:
  "generateSemiGraphicDB
     \<lparr>width = 20, height = 1,
      blocks = [map (\<lambda>i. \<lparr>pattern = i, colorCode = 0\<rparr>) [0..<20]]\<rparr> ''LARGE_DATA''
   = Some [''; '' @ semiGraphicTitle @ '' (20x1)'', ''LARGE_DATA:'',
           DB @ ''$00, $01, $02, $03, $04, $05, $06, $07, $08, $09, $0A, $0B, $0C, $0D, $0E, $0F'',
           DB @ ''$10, $11, $12, $13''] \<and>
   commaFields (DB @ ''$00, $01, $02, $03, $04, $05, $06, $07, $08, $09, $0A, $0B, $0C, $0D, $0E, $0F'')
     = 16 \<and>
   commaFields (DB @ ''$10, $11, $12, $13'') = 4"
proof -
  let ?g = "\<lparr>width = 20, height = 1,
      blocks = [map (\<lambda>i. \<lparr>pattern = i, colorCode = 0\<rparr>) [0..<20]]\<rparr>"
  let ?l1 = "DB @ ''$00, $01, $02, $03, $04, $05, $06, $07, $08, $09, $0A, $0B, $0C, $0D, $0E, $0F''"
  let ?l2 = "DB @ ''$10, $11, $12, $13''"
  have r: "rectangular ?g" by (simp add: rectangular_def)
  have g: "generateSemiGraphicDB ?g ''LARGE_DATA''
     = Some [''; '' @ semiGraphicTitle @ '' (20x1)'', ''LARGE_DATA:'', ?l1, ?l2]"
    by code_simp
  have hd: "headerLines semiGraphicTitle ?g ''LARGE_DATA'' =
      [''; '' @ semiGraphicTitle @ '' (20x1)'', ''LARGE_DATA:'']"
    by code_simp
  from generateSemiGraphicDB_chunks [OF r, of "''LARGE_DATA''"]
  obtain l1 l2 where
    "generateSemiGraphicDB ?g ''LARGE_DATA'' =
       Some (headerLines semiGraphicTitle ?g ''LARGE_DATA'' @ [l1, l2])"
    and c: "commaFields l1 = 16" "commaFields l2 = 4"
    by auto
  then have "l1 = ?l1" "l2 = ?l2" unfolding g hd by simp_all
  with c g show ?thesis by simp
qed

section \<open>The converter\<close>

subsection \<open>Words\<close>

lemma and_FF_take_bit: "(w :: 32 word) AND 0xFF = take_bit 8 w"
proof -
  have "(0xFF :: 32 word) = mask 8" by (simp add: mask_eq_exp_minus_1)
  then show ?thesis by (simp add: take_bit_eq_mask)
qed

lemma uint_ucast_low_byte: "uint (ucast ((w :: 32 word) AND 0xFF) :: 8 word) = uint (w AND 0xFF)"
  unfolding and_FF_take_bit
  by (simp add: unsigned_ucast_eq unsigned_take_bit_eq take_bit_take_bit)

lemma signed_drop_bit_low_byte:
  "n \<le> 24 \<Longrightarrow> signed_drop_bit n (c :: 32 word) AND 0xFF = drop_bit n c AND 0xFF"
  unfolding and_FF_take_bit
  by (rule bit_word_eqI) (auto simp: bit_simps)

lemma low_byte_below_128:
  "(ucast ((c :: 32 word) AND 0xFF) :: 8 word) < 128 \<longleftrightarrow> \<not> (127 < c AND 0xFF)"
proof -
  have "(ucast (c AND 0xFF) :: 8 word) < 128 \<longleftrightarrow> uint (ucast (c AND 0xFF) :: 8 word) < 128"
    by (simp add: word_less_def)
  also have "\<dots> \<longleftrightarrow> uint (c AND 0xFF) < 128" by (simp only: uint_ucast_low_byte)
  also have "\<dots> \<longleftrightarrow> \<not> (127 < c AND 0xFF)"
    by (simp add: word_less_def not_less word_le_def) arith
  finally show ?thesis .
qed

subsection \<open>The two block loops in closed form\<close>

lemma upt_0_2: "[0..<2] = [0, 1::nat]" by (simp add: upt_rec)

lemma upt_0_4: "[0..<4] = [0, 1, 2, 3::nat]" by (simp add: upt_rec)

lemma all_less_2: "(\<forall>dx<2. P dx) \<longleftrightarrow> P 0 \<and> P (1::nat)"
proof -
  have "dx < 2 \<longleftrightarrow> dx = 0 \<or> dx = 1" for dx :: nat by arith
  then show ?thesis by auto
qed

lemma all_less_4: "(\<forall>dy<4. P dy) \<longleftrightarrow> P 0 \<and> P 1 \<and> P 2 \<and> P (3::nat)"
proof -
  have "dy < 4 \<longleftrightarrow> dy = 0 \<or> dy = 1 \<or> dy = 2 \<or> dy = 3" for dy :: nat by arith
  then show ?thesis by auto
qed

lemma block_fold:
  assumes "\<And>st dy dx. step st dy dx = (fst st @ v dy dx, snd st OR m dy dx)"
  shows "foldl (\<lambda>st dy. foldl (\<lambda>st dx. step st dy dx) st [0..<2]) ([], 0::nat) [0..<4] =
    (v 0 0 @ v 0 1 @ v 1 0 @ v 1 1 @ v 2 0 @ v 2 1 @ v 3 0 @ v 3 1,
     m 0 0 OR m 0 1 OR m 1 0 OR m 1 1 OR m 2 0 OR m 2 1 OR m 3 0 OR m 3 1)"
  by (simp add: upt_0_2 upt_0_4 assms or.assoc)

text \<open>The buffer path: what a pixel votes for and which bit it sets.\<close>

lemma pixel_index_bound:
  assumes "px < w" and "py < h" and "k < 4"
  shows "(py * w + px) * 4 + k < w * h * (4::nat)"
proof -
  have "py * w + px < py * w + w" using assms(1) by simp
  also have "\<dots> = Suc py * w" by simp
  also have "\<dots> \<le> h * w" using assms(2) by (intro mult_le_mono1) simp
  finally have "py * w + px < h * w" .
  then have "Suc (py * w + px) \<le> h * w" by simp
  then have "Suc (py * w + px) * 4 \<le> h * w * 4" by (intro mult_le_mono1)
  with assms(3) show ?thesis by (simp add: mult.commute)
qed

lemma byteAt_channel:
  assumes "wellFormedBuffer imageData" and "px < pixelWidth imageData"
    and "py < pixelHeight imageData" and "k < 4"
  shows "byteAt (data imageData) ((py * pixelWidth imageData + px) * 4 + k) =
    Some (channelAt imageData px py k)"
  using pixel_index_bound [OF assms(2,3,4)] assms(1)
  by (simp add: byteAt_def channelAt_def wellFormedBuffer_def)

lemma imageDataPixel_eq:
  assumes "wellFormedBuffer imageData"
  shows "imageDataPixel imageData x y st dy dx =
    (fst st @ [if opaqueAt imageData (x * 2 + dx) (y * 4 + dy)
               then nearestAt imageData (x * 2 + dx) (y * 4 + dy) else 0],
     snd st OR (if opaqueAt imageData (x * 2 + dx) (y * 4 + dy) \<and>
                   nearestAt imageData (x * 2 + dx) (y * 4 + dy) \<noteq> 0
                then push_bit (bitIndex dx dy) 1 else 0))"
proof (cases "x * 2 + dx < pixelWidth imageData \<and> y * 4 + dy < pixelHeight imageData")
  case False
  then show ?thesis by (auto simp: imageDataPixel_def opaqueAt_def Let_def)
next
  case True
  then have inx: "x * 2 + dx < pixelWidth imageData" and iny: "y * 4 + dy < pixelHeight imageData"
    by simp_all
  note ch = byteAt_channel [OF assms inx iny]
  have c0: "byteAt (data imageData) (((y * 4 + dy) * pixelWidth imageData + (x * 2 + dx)) * 4)
      = Some (channelAt imageData (x * 2 + dx) (y * 4 + dy) 0)"
    using ch [of 0] by simp
  show ?thesis
    using True c0 ch [of 1] ch [of 2] ch [of 3]
    by (simp add: imageDataPixel_def opaqueAt_def nearestAt_def Let_def alphaBelow128_def
        nearestOfBytes_def not_less)
qed

lemma imageDataBlock_eq:
  fixes x y :: nat
  assumes "wellFormedBuffer imageData"
  defines "opq \<equiv> \<lambda>dx dy. opaqueAt imageData (x * 2 + dx) (y * 4 + dy)"
  defines "nr \<equiv> \<lambda>dx dy. nearestAt imageData (x * 2 + dx) (y * 4 + dy)"
  shows "imageDataBlock imageData x y =
    \<lparr>pattern =
       (if opq 0 0 \<and> nr 0 0 \<noteq> 0 then 1 else 0) OR (if opq 1 0 \<and> nr 1 0 \<noteq> 0 then 16 else 0) OR
       (if opq 0 1 \<and> nr 0 1 \<noteq> 0 then 2 else 0) OR (if opq 1 1 \<and> nr 1 1 \<noteq> 0 then 32 else 0) OR
       (if opq 0 2 \<and> nr 0 2 \<noteq> 0 then 4 else 0) OR (if opq 1 2 \<and> nr 1 2 \<noteq> 0 then 64 else 0) OR
       (if opq 0 3 \<and> nr 0 3 \<noteq> 0 then 8 else 0) OR (if opq 1 3 \<and> nr 1 3 \<noteq> 0 then 128 else 0),
     colorCode = getMostFrequentColor
       [if opq 0 0 then nr 0 0 else 0, if opq 1 0 then nr 1 0 else 0,
        if opq 0 1 then nr 0 1 else 0, if opq 1 1 then nr 1 1 else 0,
        if opq 0 2 then nr 0 2 else 0, if opq 1 2 then nr 1 2 else 0,
        if opq 0 3 then nr 0 3 else 0, if opq 1 3 then nr 1 3 else 0]\<rparr>"
proof -
  have "foldl (\<lambda>st dy. foldl (\<lambda>st dx. imageDataPixel imageData x y st dy dx) st [0..<2])
          ([], 0) [0..<4] =
    ([if opq 0 0 then nr 0 0 else 0] @ [if opq 1 0 then nr 1 0 else 0] @
     [if opq 0 1 then nr 0 1 else 0] @ [if opq 1 1 then nr 1 1 else 0] @
     [if opq 0 2 then nr 0 2 else 0] @ [if opq 1 2 then nr 1 2 else 0] @
     [if opq 0 3 then nr 0 3 else 0] @ [if opq 1 3 then nr 1 3 else 0],
     (if opq 0 0 \<and> nr 0 0 \<noteq> 0 then push_bit (bitIndex 0 0) 1 else 0) OR
     (if opq 1 0 \<and> nr 1 0 \<noteq> 0 then push_bit (bitIndex 1 0) 1 else 0) OR
     (if opq 0 1 \<and> nr 0 1 \<noteq> 0 then push_bit (bitIndex 0 1) 1 else 0) OR
     (if opq 1 1 \<and> nr 1 1 \<noteq> 0 then push_bit (bitIndex 1 1) 1 else 0) OR
     (if opq 0 2 \<and> nr 0 2 \<noteq> 0 then push_bit (bitIndex 0 2) 1 else 0) OR
     (if opq 1 2 \<and> nr 1 2 \<noteq> 0 then push_bit (bitIndex 1 2) 1 else 0) OR
     (if opq 0 3 \<and> nr 0 3 \<noteq> 0 then push_bit (bitIndex 0 3) 1 else 0) OR
     (if opq 1 3 \<and> nr 1 3 \<noteq> 0 then push_bit (bitIndex 1 3) 1 else 0))"
    unfolding opq_def nr_def
    by (rule block_fold [where v = "\<lambda>dy dx. [if opaqueAt imageData (x * 2 + dx) (y * 4 + dy)
               then nearestAt imageData (x * 2 + dx) (y * 4 + dy) else 0]"
          and m = "\<lambda>dy dx. if opaqueAt imageData (x * 2 + dx) (y * 4 + dy) \<and>
                   nearestAt imageData (x * 2 + dx) (y * 4 + dy) \<noteq> 0
                then push_bit (bitIndex dx dy) 1 else 0"])
       (rule imageDataPixel_eq [OF assms(1)])
  then show ?thesis
    by (simp add: imageDataBlock_def Let_def bitIndex_def)
qed

lemma jimpPixel_eq:
  "jimpPixel blockX blockY img (bitmapWidth img) (bitmapHeight img) st dy dx =
    (fst st @ (if jimpOpaqueAt img (blockX * 2 + dx) (blockY * 4 + dy)
               then [jimpNearestAt img (blockX * 2 + dx) (blockY * 4 + dy)] else []),
     snd st OR (if jimpOpaqueAt img (blockX * 2 + dx) (blockY * 4 + dy)
                then push_bit (bitIndex dx dy) 1 else 0))"
  by (cases st)
     (simp add: jimpPixel_def jimpOpaqueAt_def jimpNearestAt_def Let_def not_le
        signed_drop_bit_low_byte)

lemma generateSemiGraphicBlockFromJimp_eq:
  fixes x y :: nat and img :: JimpImage
  defines "opq \<equiv> \<lambda>dx dy. jimpOpaqueAt img (x * 2 + dx) (y * 4 + dy)"
  defines "nr \<equiv> \<lambda>dx dy. jimpNearestAt img (x * 2 + dx) (y * 4 + dy)"
  shows "generateSemiGraphicBlockFromJimp x y img (bitmapWidth img) (bitmapHeight img) =
    \<lparr>pattern =
       (if opq 0 0 then 1 else 0) OR (if opq 1 0 then 16 else 0) OR
       (if opq 0 1 then 2 else 0) OR (if opq 1 1 then 32 else 0) OR
       (if opq 0 2 then 4 else 0) OR (if opq 1 2 then 64 else 0) OR
       (if opq 0 3 then 8 else 0) OR (if opq 1 3 then 128 else 0),
     colorCode = getMostFrequentColor
       ((if opq 0 0 then [nr 0 0] else []) @ (if opq 1 0 then [nr 1 0] else []) @
        (if opq 0 1 then [nr 0 1] else []) @ (if opq 1 1 then [nr 1 1] else []) @
        (if opq 0 2 then [nr 0 2] else []) @ (if opq 1 2 then [nr 1 2] else []) @
        (if opq 0 3 then [nr 0 3] else []) @ (if opq 1 3 then [nr 1 3] else []))\<rparr>"
proof -
  have "foldl (\<lambda>st dy. foldl (\<lambda>st dx.
           jimpPixel x y img (bitmapWidth img) (bitmapHeight img) st dy dx) st [0..<2])
          ([], 0) [0..<4] =
    ((if opq 0 0 then [nr 0 0] else []) @ (if opq 1 0 then [nr 1 0] else []) @
     (if opq 0 1 then [nr 0 1] else []) @ (if opq 1 1 then [nr 1 1] else []) @
     (if opq 0 2 then [nr 0 2] else []) @ (if opq 1 2 then [nr 1 2] else []) @
     (if opq 0 3 then [nr 0 3] else []) @ (if opq 1 3 then [nr 1 3] else []),
     (if opq 0 0 then push_bit (bitIndex 0 0) 1 else 0) OR
     (if opq 1 0 then push_bit (bitIndex 1 0) 1 else 0) OR
     (if opq 0 1 then push_bit (bitIndex 0 1) 1 else 0) OR
     (if opq 1 1 then push_bit (bitIndex 1 1) 1 else 0) OR
     (if opq 0 2 then push_bit (bitIndex 0 2) 1 else 0) OR
     (if opq 1 2 then push_bit (bitIndex 1 2) 1 else 0) OR
     (if opq 0 3 then push_bit (bitIndex 0 3) 1 else 0) OR
     (if opq 1 3 then push_bit (bitIndex 1 3) 1 else 0))"
    unfolding opq_def nr_def
    by (rule block_fold [where v = "\<lambda>dy dx. if jimpOpaqueAt img (x * 2 + dx) (y * 4 + dy)
               then [jimpNearestAt img (x * 2 + dx) (y * 4 + dy)] else []"
          and m = "\<lambda>dy dx. if jimpOpaqueAt img (x * 2 + dx) (y * 4 + dy)
                then push_bit (bitIndex dx dy) 1 else 0"])
       (rule jimpPixel_eq)
  then show ?thesis
    by (simp add: generateSemiGraphicBlockFromJimp_def Let_def bitIndex_def)
qed

subsection \<open>The grids\<close>

lemma ceilDiv_times_div: "0 < k \<Longrightarrow> ceilDiv n k * k div k = ceilDiv n k"
  by simp

lemma convertImageDataToSemiGraphic_shape:
  "width (convertImageDataToSemiGraphic imageData) = ceilDiv (pixelWidth imageData) 2"
  "height (convertImageDataToSemiGraphic imageData) = ceilDiv (pixelHeight imageData) 4"
  "rectangular (convertImageDataToSemiGraphic imageData)"
  by (auto simp: convertImageDataToSemiGraphic_def Let_def rectangular_def)

lemma convertImageDataToSemiGraphic_block:
  "y < height (convertImageDataToSemiGraphic imageData) \<Longrightarrow>
   x < width (convertImageDataToSemiGraphic imageData) \<Longrightarrow>
   blocks (convertImageDataToSemiGraphic imageData) ! y ! x = imageDataBlock imageData x y"
  by (simp add: convertImageDataToSemiGraphic_def Let_def)

lemma convertJimpToSemiGraphic_shape:
  "width (convertJimpToSemiGraphic img) = ceilDiv (bitmapWidth img) 2"
  "height (convertJimpToSemiGraphic img) = ceilDiv (bitmapHeight img) 4"
  "rectangular (convertJimpToSemiGraphic img)"
  by (auto simp: convertJimpToSemiGraphic_def Let_def rectangular_def)

lemma convertJimpToSemiGraphic_block:
  "y < height (convertJimpToSemiGraphic img) \<Longrightarrow>
   x < width (convertJimpToSemiGraphic img) \<Longrightarrow>
   blocks (convertJimpToSemiGraphic img) ! y ! x =
     generateSemiGraphicBlockFromJimp x y img (bitmapWidth img) (bitmapHeight img)"
  by (simp add: convertJimpToSemiGraphic_def Let_def)

subsection \<open>Patterns\<close>

lemma or_nat_less_exp:
  fixes v w :: nat
  assumes "v < 2 ^ n" and "w < 2 ^ n"
  shows "v OR w < 2 ^ n"
proof -
  from assms have "take_bit n v = v" "take_bit n w = w"
    by (simp_all add: take_bit_nat_eq_self_iff)
  then have "v OR w = take_bit n (v OR w)" by (simp add: take_bit_or)
  also have "\<dots> < 2 ^ n" by (rule take_bit_nat_less_exp)
  finally show ?thesis .
qed

lemma bit_if_dot: "bit (if c then v else 0) k \<longleftrightarrow> c \<and> bit (v::nat) k"
  by simp

lemma dots_bits:
  fixes a0 a1 a2 a3 b0 b1 b2 b3 :: bool
  defines "p \<equiv> (if a0 then 1 else 0) OR (if b0 then 16 else 0) OR
       (if a1 then 2 else 0) OR (if b1 then 32 else 0) OR
       (if a2 then 4 else 0) OR (if b2 then 64 else 0) OR
       (if a3 then 8 else 0) OR (if b3 then (128::nat) else 0)"
  shows "bit p 0 \<longleftrightarrow> a0" "bit p 1 \<longleftrightarrow> a1" "bit p 2 \<longleftrightarrow> a2" "bit p 3 \<longleftrightarrow> a3"
    "bit p 4 \<longleftrightarrow> b0" "bit p 5 \<longleftrightarrow> b1" "bit p 6 \<longleftrightarrow> b2" "bit p 7 \<longleftrightarrow> b3"
    "p < 256"
proof -
  have d: "(if c then v else 0) < (2::nat) ^ 8" if "v < 2 ^ 8" for c v
    using that by simp
  have "p < 2 ^ 8"
    unfolding p_def by (intro or_nat_less_exp d) simp_all
  then show "p < 256" by simp
  have b: "bit p k \<longleftrightarrow> a0 \<and> bit (1::nat) k \<or> b0 \<and> bit (16::nat) k \<or> a1 \<and> bit (2::nat) k \<or>
      b1 \<and> bit (32::nat) k \<or> a2 \<and> bit (4::nat) k \<or> b2 \<and> bit (64::nat) k \<or>
      a3 \<and> bit (8::nat) k \<or> b3 \<and> bit (128::nat) k" for k
    unfolding p_def by (simp only: bit_or_iff bit_if_dot)
  show "bit p 0 \<longleftrightarrow> a0" unfolding b by (simp add: bit_Suc_0_iff)
  show "bit p 1 \<longleftrightarrow> a1" unfolding b by (simp add: bit_Suc_0_iff)
  show "bit p 2 \<longleftrightarrow> a2" unfolding b by (simp add: bit_Suc_0_iff)
  show "bit p 3 \<longleftrightarrow> a3" unfolding b by (simp add: bit_Suc_0_iff)
  show "bit p 4 \<longleftrightarrow> b0" unfolding b by (simp add: bit_Suc_0_iff)
  show "bit p 5 \<longleftrightarrow> b1" unfolding b by (simp add: bit_Suc_0_iff)
  show "bit p 6 \<longleftrightarrow> b2" unfolding b by (simp add: bit_Suc_0_iff)
  show "bit p 7 \<longleftrightarrow> b3" unfolding b by (simp add: bit_Suc_0_iff)
qed

lemma findNearestColor_white: "findNearestColor \<lparr>r = 255, g = 255, b = 255\<rparr> = 7"
  by code_simp

lemma findNearestColor_black: "findNearestColor \<lparr>r = 0, g = 0, b = 0\<rparr> = 0"
  by code_simp

text \<open>
  C1. In the buffer path, for a block all of whose opaque pixels are white, bit
  \<open>dy\<close> (left column) or \<open>4 + dy\<close> (right column) of the pattern is set exactly
  when the pixel at column \<open>dx\<close>, row \<open>dy\<close> of the block is opaque, and no other bit is
  set. Hence the patterns 0xFF, 0xCC, 0x33, 0x0F and 0xF0 of the fully opaque block, the
  bottom two rows, the top two rows, the left and the right column, and the pattern
  \<open>1 << (dx = 0 ? dy : 4 + dy)\<close> of a single opaque dot.
\<close>

theorem convertImageDataToSemiGraphic_bit_placement:
  fixes imageData :: ImageData and x y :: nat
  defines "p \<equiv> pattern (blocks (convertImageDataToSemiGraphic imageData) ! y ! x)"
  defines "opq \<equiv> \<lambda>dx dy. opaqueAt imageData (x * 2 + dx) (y * 4 + dy)"
  assumes wf: "wellFormedBuffer imageData"
    and x: "x < width (convertImageDataToSemiGraphic imageData)"
    and y: "y < height (convertImageDataToSemiGraphic imageData)"
    and white: "\<forall>dx<2. \<forall>dy<4. opaqueAt imageData (x * 2 + dx) (y * 4 + dy) \<longrightarrow>
        channelAt imageData (x * 2 + dx) (y * 4 + dy) 0 = 255 \<and>
        channelAt imageData (x * 2 + dx) (y * 4 + dy) 1 = 255 \<and>
        channelAt imageData (x * 2 + dx) (y * 4 + dy) 2 = 255"
  shows "(\<forall>dx<2. \<forall>dy<4. bit p (if dx = 0 then dy else 4 + dy) \<longleftrightarrow> opq dx dy) \<and>
    p < 256 \<and>
    ((\<forall>dx<2. \<forall>dy<4. opq dx dy) \<longrightarrow> p = 0xFF) \<and>
    ((\<forall>dx<2. \<forall>dy<4. opq dx dy \<longleftrightarrow> 2 \<le> dy) \<longrightarrow> p = 0xCC) \<and>
    ((\<forall>dx<2. \<forall>dy<4. opq dx dy \<longleftrightarrow> dy < 2) \<longrightarrow> p = 0x33) \<and>
    ((\<forall>dx<2. \<forall>dy<4. opq dx dy \<longleftrightarrow> dx = 0) \<longrightarrow> p = 0x0F) \<and>
    ((\<forall>dx<2. \<forall>dy<4. opq dx dy \<longleftrightarrow> dx = 1) \<longrightarrow> p = 0xF0) \<and>
    (\<forall>dx0<2. \<forall>dy0<4. (\<forall>dx<2. \<forall>dy<4. opq dx dy \<longleftrightarrow> dx = dx0 \<and> dy = dy0) \<longrightarrow>
       p = push_bit (if dx0 = 0 then dy0 else 4 + dy0) 1)"
proof -
  have nz: "opq dx dy \<Longrightarrow> dx < 2 \<Longrightarrow> dy < 4 \<Longrightarrow>
      nearestAt imageData (x * 2 + dx) (y * 4 + dy) \<noteq> 0" for dx dy
    using white by (simp add: opq_def nearestAt_def findNearestColor_white)
  have c: "(opq dx dy \<and> nearestAt imageData (x * 2 + dx) (y * 4 + dy) \<noteq> 0) = opq dx dy"
    if "dx < 2" "dy < 4" for dx dy
    using nz [OF _ that] by blast
  have pe: "p = (if opq 0 0 then 1 else 0) OR (if opq 1 0 then 16 else 0) OR
       (if opq 0 1 then 2 else 0) OR (if opq 1 1 then 32 else 0) OR
       (if opq 0 2 then 4 else 0) OR (if opq 1 2 then 64 else 0) OR
       (if opq 0 3 then 8 else 0) OR (if opq 1 3 then 128 else 0)"
    unfolding p_def convertImageDataToSemiGraphic_block [OF y x] imageDataBlock_eq [OF wf]
    using c [of 0 0] c [of 1 0] c [of 0 1] c [of 1 1] c [of 0 2] c [of 1 2] c [of 0 3] c [of 1 3]
    by (simp add: opq_def)
  note bits = dots_bits [of "opq 0 0" "opq 1 0" "opq 0 1" "opq 1 1" "opq 0 2" "opq 1 2"
      "opq 0 3" "opq 1 3", folded pe]
  have a: "\<forall>dx<2. \<forall>dy<4. bit p (if dx = 0 then dy else 4 + dy) \<longleftrightarrow> opq dx dy"
    unfolding all_less_2 all_less_4 using bits(1-8) by simp
  have b: "p < 256" by (rule bits(9))
  have full: "p = 0xFF" if "\<forall>dx<2. \<forall>dy<4. opq dx dy"
    using that unfolding all_less_2 all_less_4 pe by simp
  have bottom: "p = 0xCC" if "\<forall>dx<2. \<forall>dy<4. opq dx dy \<longleftrightarrow> 2 \<le> dy"
    using that unfolding all_less_2 all_less_4 pe by simp
  have top: "p = 0x33" if "\<forall>dx<2. \<forall>dy<4. opq dx dy \<longleftrightarrow> dy < 2"
    using that unfolding all_less_2 all_less_4 pe by simp
  have left: "p = 0x0F" if "\<forall>dx<2. \<forall>dy<4. opq dx dy \<longleftrightarrow> dx = 0"
    using that unfolding all_less_2 all_less_4 pe by simp
  have right: "p = 0xF0" if "\<forall>dx<2. \<forall>dy<4. opq dx dy \<longleftrightarrow> dx = 1"
    using that unfolding all_less_2 all_less_4 pe by simp
  have single: "p = push_bit (if dx0 = 0 then dy0 else 4 + dy0) 1"
    if h: "\<forall>dx<2. \<forall>dy<4. opq dx dy \<longleftrightarrow> dx = dx0 \<and> dy = dy0" and d: "dx0 < 2" "dy0 < 4"
    for dx0 dy0
  proof -
    from d have "dx0 = 0 \<or> dx0 = 1" "dy0 = 0 \<or> dy0 = 1 \<or> dy0 = 2 \<or> dy0 = 3" by arith+
    then show ?thesis
      using h unfolding all_less_2 all_less_4 pe by (elim disjE) simp_all
  qed
  from a b full bottom top left right single show ?thesis by blast
qed

theorem convertImageDataToSemiGraphic_bit_placement_witness:
  "pattern (blocks (convertImageDataToSemiGraphic
      \<lparr>pixelWidth = 2, pixelHeight = 4, data = replicate 16 0 @ replicate 16 255\<rparr>) ! 0 ! 0)
    = 0xCC"
proof -
  let ?img = "\<lparr>pixelWidth = 2, pixelHeight = 4, data = replicate 16 0 @ replicate 16 255\<rparr>"
  have wf: "wellFormedBuffer ?img" by (simp add: wellFormedBuffer_def)
  have x: "0 < width (convertImageDataToSemiGraphic ?img)"
    and y: "0 < height (convertImageDataToSemiGraphic ?img)"
    by (simp_all add: convertImageDataToSemiGraphic_shape ceilDiv_def)
  have opq: "opaqueAt ?img (0 * 2 + dx) (0 * 4 + dy) \<longleftrightarrow> 2 \<le> dy" if "dx < 2" "dy < 4" for dx dy
  proof -
    from that have "dx = 0 \<or> dx = 1" "dy = 0 \<or> dy = 1 \<or> dy = 2 \<or> dy = 3" by arith+
    then show ?thesis
      by (elim disjE) (simp_all add: opaqueAt_def channelAt_def nth_append)
  qed
  have ch: "channelAt ?img (0 * 2 + dx) (0 * 4 + dy) k = 255"
    if "dx < 2" "dy < 4" "2 \<le> dy" "k < 3" for dx dy k
  proof -
    from that have "16 \<le> ((0 * 4 + dy) * 2 + (0 * 2 + dx)) * 4 + k"
      and "((0 * 4 + dy) * 2 + (0 * 2 + dx)) * 4 + k < 32" by simp_all
    then show ?thesis by (simp add: channelAt_def nth_append)
  qed
  have white: "\<forall>dx<2. \<forall>dy<4. opaqueAt ?img (0 * 2 + dx) (0 * 4 + dy) \<longrightarrow>
        channelAt ?img (0 * 2 + dx) (0 * 4 + dy) 0 = 255 \<and>
        channelAt ?img (0 * 2 + dx) (0 * 4 + dy) 1 = 255 \<and>
        channelAt ?img (0 * 2 + dx) (0 * 4 + dy) 2 = 255"
    using opq ch by simp
  have bottom: "\<forall>dx<2. \<forall>dy<4. opaqueAt ?img (0 * 2 + dx) (0 * 4 + dy) \<longleftrightarrow> 2 \<le> dy"
    using opq by simp
  from convertImageDataToSemiGraphic_bit_placement [OF wf x y white]
  have "(\<forall>dx<2. \<forall>dy<4. opaqueAt ?img (0 * 2 + dx) (0 * 4 + dy) \<longleftrightarrow> 2 \<le> dy) \<longrightarrow>
      pattern (blocks (convertImageDataToSemiGraphic ?img) ! 0 ! 0) = 0xCC"
    by (elim conjE)
  from this bottom show ?thesis by (rule mp)
qed

subsection \<open>Opaque black\<close>

lemma ex_less_2: "(\<exists>dx<2. P dx) \<longleftrightarrow> P 0 \<or> P (1::nat)"
proof -
  have "dx < 2 \<longleftrightarrow> dx = 0 \<or> dx = 1" for dx :: nat by arith
  then show ?thesis by auto
qed

lemma ex_less_4: "(\<exists>dy<4. P dy) \<longleftrightarrow> P 0 \<or> P 1 \<or> P 2 \<or> P (3::nat)"
proof -
  have "dy < 4 \<longleftrightarrow> dy = 0 \<or> dy = 1 \<or> dy = 2 \<or> dy = 3" for dy :: nat by arith
  then show ?thesis by auto
qed

lemma or_dots_zero:
  "(if a0 then 1 else 0) OR (if b0 then 16 else 0) OR (if a1 then 2 else 0) OR
   (if b1 then 32 else 0) OR (if a2 then 4 else 0) OR (if b2 then 64 else 0) OR
   (if a3 then 8 else 0) OR (if b3 then (128::nat) else 0) = 0
   \<longleftrightarrow> \<not> a0 \<and> \<not> b0 \<and> \<not> a1 \<and> \<not> b1 \<and> \<not> a2 \<and> \<not> b2 \<and> \<not> a3 \<and> \<not> b3"
proof -
  have d: "(if c then v else 0) = (0::nat) \<longleftrightarrow> \<not> c \<or> v = 0" for c v by simp
  show ?thesis
    by (simp only: or_eq_0_iff d zero_neq_numeral zero_neq_one one_neq_zero numeral_neq_zero
          simp_thms)
qed

lemma jimp_block_props:
  fixes img :: JimpImage and x y :: nat
  defines "bj \<equiv> generateSemiGraphicBlockFromJimp x y img (bitmapWidth img) (bitmapHeight img)"
  defines "opq \<equiv> \<lambda>dx dy. jimpOpaqueAt img (x * 2 + dx) (y * 4 + dy)"
  defines "nr \<equiv> \<lambda>dx dy. jimpNearestAt img (x * 2 + dx) (y * 4 + dy)"
  shows "\<forall>dx<2. \<forall>dy<4. bit (pattern bj) (if dx = 0 then dy else 4 + dy) \<longleftrightarrow> opq dx dy"
    and "pattern bj < 256"
    and "(\<forall>dx<2. \<forall>dy<4. opq dx dy \<longrightarrow> nr dx dy = 0) \<longrightarrow> colorCode bj = 0"
    and "(\<exists>dx<2. \<exists>dy<4. opq dx dy) \<longleftrightarrow> pattern bj \<noteq> 0"
proof -
  have e: "bj = \<lparr>pattern =
       (if opq 0 0 then 1 else 0) OR (if opq 1 0 then 16 else 0) OR
       (if opq 0 1 then 2 else 0) OR (if opq 1 1 then 32 else 0) OR
       (if opq 0 2 then 4 else 0) OR (if opq 1 2 then 64 else 0) OR
       (if opq 0 3 then 8 else 0) OR (if opq 1 3 then 128 else 0),
     colorCode = getMostFrequentColor
       ((if opq 0 0 then [nr 0 0] else []) @ (if opq 1 0 then [nr 1 0] else []) @
        (if opq 0 1 then [nr 0 1] else []) @ (if opq 1 1 then [nr 1 1] else []) @
        (if opq 0 2 then [nr 0 2] else []) @ (if opq 1 2 then [nr 1 2] else []) @
        (if opq 0 3 then [nr 0 3] else []) @ (if opq 1 3 then [nr 1 3] else []))\<rparr>"
    unfolding bj_def opq_def nr_def by (rule generateSemiGraphicBlockFromJimp_eq)
  have pe: "pattern bj = (if opq 0 0 then 1 else 0) OR (if opq 1 0 then 16 else 0) OR
       (if opq 0 1 then 2 else 0) OR (if opq 1 1 then 32 else 0) OR
       (if opq 0 2 then 4 else 0) OR (if opq 1 2 then 64 else 0) OR
       (if opq 0 3 then 8 else 0) OR (if opq 1 3 then 128 else 0)"
    unfolding e by (simp only: SemiGraphicBlock.simps)
  note bits = dots_bits [of "opq 0 0" "opq 1 0" "opq 0 1" "opq 1 1" "opq 0 2" "opq 1 2"
      "opq 0 3" "opq 1 3", folded pe]
  show "\<forall>dx<2. \<forall>dy<4. bit (pattern bj) (if dx = 0 then dy else 4 + dy) \<longleftrightarrow> opq dx dy"
    unfolding all_less_2 all_less_4 using bits(1-8) by simp
  show "pattern bj < 256" by (rule bits(9))
  show "(\<exists>dx<2. \<exists>dy<4. opq dx dy) \<longleftrightarrow> pattern bj \<noteq> 0"
    unfolding ex_less_2 ex_less_4 pe or_dots_zero by blast
  show "(\<forall>dx<2. \<forall>dy<4. opq dx dy \<longrightarrow> nr dx dy = 0) \<longrightarrow> colorCode bj = 0"
  proof
    assume h: "\<forall>dx<2. \<forall>dy<4. opq dx dy \<longrightarrow> nr dx dy = 0"
    have v: "\<forall>c\<in>set (if opq dx dy then [nr dx dy] else []). c = 0" if "dx < 2" "dy < 4" for dx dy
      using h that by simp
    have "colorCode bj = getMostFrequentColor
       ((if opq 0 0 then [nr 0 0] else []) @ (if opq 1 0 then [nr 1 0] else []) @
        (if opq 0 1 then [nr 0 1] else []) @ (if opq 1 1 then [nr 1 1] else []) @
        (if opq 0 2 then [nr 0 2] else []) @ (if opq 1 2 then [nr 1 2] else []) @
        (if opq 0 3 then [nr 0 3] else []) @ (if opq 1 3 then [nr 1 3] else []))"
      unfolding e by (simp only: SemiGraphicBlock.simps)
    also have "\<dots> = 0"
    proof (rule getMostFrequentColor_none)
      have "\<forall>c\<in>set (if opq 0 0 then [nr 0 0] else []). c = 0"
        "\<forall>c\<in>set (if opq 1 0 then [nr 1 0] else []). c = 0"
        "\<forall>c\<in>set (if opq 0 1 then [nr 0 1] else []). c = 0"
        "\<forall>c\<in>set (if opq 1 1 then [nr 1 1] else []). c = 0"
        "\<forall>c\<in>set (if opq 0 2 then [nr 0 2] else []). c = 0"
        "\<forall>c\<in>set (if opq 1 2 then [nr 1 2] else []). c = 0"
        "\<forall>c\<in>set (if opq 0 3 then [nr 0 3] else []). c = 0"
        "\<forall>c\<in>set (if opq 1 3 then [nr 1 3] else []). c = 0"
        by (rule v, simp, simp)+
      then show "\<forall>c\<in>set ((if opq 0 0 then [nr 0 0] else []) @ (if opq 1 0 then [nr 1 0] else []) @
        (if opq 0 1 then [nr 0 1] else []) @ (if opq 1 1 then [nr 1 1] else []) @
        (if opq 0 2 then [nr 0 2] else []) @ (if opq 1 2 then [nr 1 2] else []) @
        (if opq 0 3 then [nr 0 3] else []) @ (if opq 1 3 then [nr 1 3] else [])). c = 0"
        by (simp only: set_append ball_Un simp_thms)
    qed
    finally show "colorCode bj = 0" .
  qed
qed

lemma buffer_block_props:
  fixes imageData :: ImageData and x y :: nat
  defines "bb \<equiv> imageDataBlock imageData x y"
  defines "opq \<equiv> \<lambda>dx dy. opaqueAt imageData (x * 2 + dx) (y * 4 + dy)"
  defines "nr \<equiv> \<lambda>dx dy. nearestAt imageData (x * 2 + dx) (y * 4 + dy)"
  assumes wf: "wellFormedBuffer imageData"
  shows "\<forall>dx<2. \<forall>dy<4. bit (pattern bb) (if dx = 0 then dy else 4 + dy)
            \<longleftrightarrow> opq dx dy \<and> nr dx dy \<noteq> 0"
    and "pattern bb < 256"
    and "(\<forall>dx<2. \<forall>dy<4. opq dx dy \<longrightarrow> nr dx dy = 0) \<longrightarrow> pattern bb = 0 \<and> colorCode bb = 0"
proof -
  have e: "bb = \<lparr>pattern =
       (if opq 0 0 \<and> nr 0 0 \<noteq> 0 then 1 else 0) OR (if opq 1 0 \<and> nr 1 0 \<noteq> 0 then 16 else 0) OR
       (if opq 0 1 \<and> nr 0 1 \<noteq> 0 then 2 else 0) OR (if opq 1 1 \<and> nr 1 1 \<noteq> 0 then 32 else 0) OR
       (if opq 0 2 \<and> nr 0 2 \<noteq> 0 then 4 else 0) OR (if opq 1 2 \<and> nr 1 2 \<noteq> 0 then 64 else 0) OR
       (if opq 0 3 \<and> nr 0 3 \<noteq> 0 then 8 else 0) OR (if opq 1 3 \<and> nr 1 3 \<noteq> 0 then 128 else 0),
     colorCode = getMostFrequentColor
       [if opq 0 0 then nr 0 0 else 0, if opq 1 0 then nr 1 0 else 0,
        if opq 0 1 then nr 0 1 else 0, if opq 1 1 then nr 1 1 else 0,
        if opq 0 2 then nr 0 2 else 0, if opq 1 2 then nr 1 2 else 0,
        if opq 0 3 then nr 0 3 else 0, if opq 1 3 then nr 1 3 else 0]\<rparr>"
    unfolding bb_def opq_def nr_def by (rule imageDataBlock_eq [OF wf])
  have pe: "pattern bb =
       (if opq 0 0 \<and> nr 0 0 \<noteq> 0 then 1 else 0) OR (if opq 1 0 \<and> nr 1 0 \<noteq> 0 then 16 else 0) OR
       (if opq 0 1 \<and> nr 0 1 \<noteq> 0 then 2 else 0) OR (if opq 1 1 \<and> nr 1 1 \<noteq> 0 then 32 else 0) OR
       (if opq 0 2 \<and> nr 0 2 \<noteq> 0 then 4 else 0) OR (if opq 1 2 \<and> nr 1 2 \<noteq> 0 then 64 else 0) OR
       (if opq 0 3 \<and> nr 0 3 \<noteq> 0 then 8 else 0) OR (if opq 1 3 \<and> nr 1 3 \<noteq> 0 then 128 else 0)"
    unfolding e by (simp only: SemiGraphicBlock.simps)
  note bits = dots_bits [of "opq 0 0 \<and> nr 0 0 \<noteq> 0" "opq 1 0 \<and> nr 1 0 \<noteq> 0"
      "opq 0 1 \<and> nr 0 1 \<noteq> 0" "opq 1 1 \<and> nr 1 1 \<noteq> 0" "opq 0 2 \<and> nr 0 2 \<noteq> 0"
      "opq 1 2 \<and> nr 1 2 \<noteq> 0" "opq 0 3 \<and> nr 0 3 \<noteq> 0" "opq 1 3 \<and> nr 1 3 \<noteq> 0", folded pe]
  show "\<forall>dx<2. \<forall>dy<4. bit (pattern bb) (if dx = 0 then dy else 4 + dy)
            \<longleftrightarrow> opq dx dy \<and> nr dx dy \<noteq> 0"
    unfolding all_less_2 all_less_4 using bits(1-8) by simp
  show "pattern bb < 256" by (rule bits(9))
  show "(\<forall>dx<2. \<forall>dy<4. opq dx dy \<longrightarrow> nr dx dy = 0) \<longrightarrow> pattern bb = 0 \<and> colorCode bb = 0"
  proof
    assume h: "\<forall>dx<2. \<forall>dy<4. opq dx dy \<longrightarrow> nr dx dy = 0"
    have v: "(if opq dx dy then nr dx dy else 0) = 0" if "dx < 2" "dy < 4" for dx dy
      using h that by simp
    have "colorCode bb = getMostFrequentColor
       [if opq 0 0 then nr 0 0 else 0, if opq 1 0 then nr 1 0 else 0,
        if opq 0 1 then nr 0 1 else 0, if opq 1 1 then nr 1 1 else 0,
        if opq 0 2 then nr 0 2 else 0, if opq 1 2 then nr 1 2 else 0,
        if opq 0 3 then nr 0 3 else 0, if opq 1 3 then nr 1 3 else 0]"
      unfolding e by (simp only: SemiGraphicBlock.simps)
    also have "\<dots> = getMostFrequentColor [0, 0, 0, 0, 0, 0, 0, 0]"
    proof -
      have "(if opq 0 0 then nr 0 0 else 0) = 0" "(if opq 1 0 then nr 1 0 else 0) = 0"
        "(if opq 0 1 then nr 0 1 else 0) = 0" "(if opq 1 1 then nr 1 1 else 0) = 0"
        "(if opq 0 2 then nr 0 2 else 0) = 0" "(if opq 1 2 then nr 1 2 else 0) = 0"
        "(if opq 0 3 then nr 0 3 else 0) = 0" "(if opq 1 3 then nr 1 3 else 0) = 0"
        by (rule v, simp, simp)+
      then show ?thesis by (simp only:)
    qed
    also have "\<dots> = 0" by (rule getMostFrequentColor_none) simp
    finally have c: "colorCode bb = 0" .
    have z: "\<not> (opq dx dy \<and> nr dx dy \<noteq> 0)" if "dx < 2" "dy < 4" for dx dy
      using h that by simp
    have "pattern bb = 0"
      unfolding pe or_dots_zero by (intro conjI z) simp_all
    with c show "pattern bb = 0 \<and> colorCode bb = 0" by simp
  qed
qed

lemma opaqueBlackBlock_wf: "wellFormedBuffer opaqueBlackBlock"
  by (simp add: wellFormedBuffer_def opaqueBlackBlock_def)

lemma opaqueBlackBlock_nearest:
  "dx < 2 \<Longrightarrow> dy < 4 \<Longrightarrow> nearestAt opaqueBlackBlock (0 * 2 + dx) (0 * 4 + dy) = 0"
proof -
  assume "dx < 2" "dy < 4"
  then have "dx = 0 \<or> dx = 1" "dy = 0 \<or> dy = 1 \<or> dy = 2 \<or> dy = 3" by arith+
  then show ?thesis
    by (elim disjE)
       (simp_all add: nearestAt_def channelAt_def opaqueBlackBlock_def findNearestColor_black)
qed

lemma opaqueBlackBlock_all_black:
  "\<forall>dx<2. \<forall>dy<4. opaqueAt opaqueBlackBlock (0 * 2 + dx) (0 * 4 + dy) \<longrightarrow>
      nearestAt opaqueBlackBlock (0 * 2 + dx) (0 * 4 + dy) = 0"
  by (intro allI impI) (rule opaqueBlackBlock_nearest)

lemma opaqueBlackBlock_block: "imageDataBlock opaqueBlackBlock 0 0 = \<lparr>pattern = 0, colorCode = 0\<rparr>"
proof -
  from buffer_block_props(3) [OF opaqueBlackBlock_wf, where x = 0 and y = 0] opaqueBlackBlock_all_black
  have "pattern (imageDataBlock opaqueBlackBlock 0 0) = 0 \<and>
      colorCode (imageDataBlock opaqueBlackBlock 0 0) = 0" by (rule mp)
  then show ?thesis by (cases "imageDataBlock opaqueBlackBlock 0 0") simp
qed

lemma opaqueBlackDot_opaque: "jimpOpaqueAt opaqueBlackDot (0 * 2 + 0) (0 * 4 + 0)"
  by (simp add: jimpOpaqueAt_def opaqueBlackDot_def opaqueBlackPixel_def)

lemma opaqueBlackDot_nearest: "jimpNearestAt opaqueBlackDot px py = 0"
  by (simp add: jimpNearestAt_def opaqueBlackDot_def opaqueBlackPixel_def findNearestColor_black)

text \<open>
  C3, as the claim states it, fails on the buffer path: the block of eight opaque black
  pixels, (0, 0, 0) with alpha 255, is converted to the pattern 0.
\<close>

theorem opaque_black_counterexample:
  "convertImageDataToSemiGraphic opaqueBlackBlock =
     \<lparr>width = 1, height = 1, blocks = [[\<lparr>pattern = 0, colorCode = 0\<rparr>]]\<rparr> \<and>
   wellFormedBuffer opaqueBlackBlock \<and>
   channelAt opaqueBlackBlock 0 0 0 = 0 \<and> channelAt opaqueBlackBlock 0 0 1 = 0 \<and>
   channelAt opaqueBlackBlock 0 0 2 = 0 \<and> channelAt opaqueBlackBlock 0 0 3 = 255 \<and>
   opaqueAt opaqueBlackBlock 0 0"
proof -
  have a: "convertImageDataToSemiGraphic opaqueBlackBlock =
     \<lparr>width = 1, height = 1, blocks = [[imageDataBlock opaqueBlackBlock 0 0]]\<rparr>"
    by (simp add: convertImageDataToSemiGraphic_def ceilDiv_def opaqueBlackBlock_def Let_def)
  have b: "channelAt opaqueBlackBlock 0 0 0 = 0" "channelAt opaqueBlackBlock 0 0 1 = 0"
    "channelAt opaqueBlackBlock 0 0 2 = 0" "channelAt opaqueBlackBlock 0 0 3 = 255"
    by (simp_all add: channelAt_def opaqueBlackBlock_def)
  have c: "opaqueAt opaqueBlackBlock 0 0"
    by (simp add: opaqueAt_def channelAt_def opaqueBlackBlock_def)
  from a b c opaqueBlackBlock_wf show ?thesis
    by (simp only: opaqueBlackBlock_block simp_thms)
qed

text \<open>
  C3, amended. On the decoded-image path the pattern bit of a pixel is set exactly when
  the pixel lies in the image and its alpha exceeds 127, whatever its colour: a block
  whose opaque pixels are all nearest to black has colour code 0, and its pattern is not
  0 as soon as one of its pixels is opaque. On the buffer path the bit is set exactly
  when the pixel is opaque and its nearest palette colour is not black: a block whose
  opaque pixels are all nearest to black has pattern 0 and colour code 0. On both paths
  a fully transparent block has pattern 0 and colour code 0.
\<close>

theorem pattern_bits_of_both_paths:
  fixes img :: JimpImage and imageData :: ImageData and x y :: nat
  defines "bj \<equiv> generateSemiGraphicBlockFromJimp x y img (bitmapWidth img) (bitmapHeight img)"
  defines "bb \<equiv> imageDataBlock imageData x y"
  assumes wf: "wellFormedBuffer imageData"
  shows "(y < height (convertJimpToSemiGraphic img) \<and> x < width (convertJimpToSemiGraphic img)
       \<longrightarrow> blocks (convertJimpToSemiGraphic img) ! y ! x = bj) \<and>
    (\<forall>dx<2. \<forall>dy<4. bit (pattern bj) (if dx = 0 then dy else 4 + dy)
       \<longleftrightarrow> jimpOpaqueAt img (x * 2 + dx) (y * 4 + dy)) \<and>
    ((\<forall>dx<2. \<forall>dy<4. jimpOpaqueAt img (x * 2 + dx) (y * 4 + dy) \<longrightarrow>
        jimpNearestAt img (x * 2 + dx) (y * 4 + dy) = 0) \<longrightarrow> colorCode bj = 0) \<and>
    ((\<exists>dx<2. \<exists>dy<4. jimpOpaqueAt img (x * 2 + dx) (y * 4 + dy)) \<longleftrightarrow> pattern bj \<noteq> 0) \<and>
    ((\<forall>dx<2. \<forall>dy<4. \<not> jimpOpaqueAt img (x * 2 + dx) (y * 4 + dy)) \<longrightarrow>
        pattern bj = 0 \<and> colorCode bj = 0) \<and>
    (y < height (convertImageDataToSemiGraphic imageData) \<and>
     x < width (convertImageDataToSemiGraphic imageData)
       \<longrightarrow> blocks (convertImageDataToSemiGraphic imageData) ! y ! x = bb) \<and>
    (\<forall>dx<2. \<forall>dy<4. bit (pattern bb) (if dx = 0 then dy else 4 + dy)
       \<longleftrightarrow> opaqueAt imageData (x * 2 + dx) (y * 4 + dy) \<and>
           nearestAt imageData (x * 2 + dx) (y * 4 + dy) \<noteq> 0) \<and>
    ((\<forall>dx<2. \<forall>dy<4. opaqueAt imageData (x * 2 + dx) (y * 4 + dy) \<longrightarrow>
        nearestAt imageData (x * 2 + dx) (y * 4 + dy) = 0) \<longrightarrow> pattern bb = 0 \<and> colorCode bb = 0) \<and>
    ((\<forall>dx<2. \<forall>dy<4. \<not> opaqueAt imageData (x * 2 + dx) (y * 4 + dy)) \<longrightarrow>
        pattern bb = 0 \<and> colorCode bb = 0)"
proof -
  note j = jimp_block_props [where x = x and y = y and img = img]
  note b = buffer_block_props [OF wf, where x = x and y = y]
  have j1: "y < height (convertJimpToSemiGraphic img) \<and> x < width (convertJimpToSemiGraphic img)
       \<longrightarrow> blocks (convertJimpToSemiGraphic img) ! y ! x = bj"
    unfolding bj_def by (simp add: convertJimpToSemiGraphic_block)
  have j2: "\<forall>dx<2. \<forall>dy<4. bit (pattern bj) (if dx = 0 then dy else 4 + dy)
       \<longleftrightarrow> jimpOpaqueAt img (x * 2 + dx) (y * 4 + dy)"
    unfolding bj_def by (rule j(1))
  have j3: "(\<forall>dx<2. \<forall>dy<4. jimpOpaqueAt img (x * 2 + dx) (y * 4 + dy) \<longrightarrow>
        jimpNearestAt img (x * 2 + dx) (y * 4 + dy) = 0) \<longrightarrow> colorCode bj = 0"
    unfolding bj_def by (rule j(3))
  have j4: "(\<exists>dx<2. \<exists>dy<4. jimpOpaqueAt img (x * 2 + dx) (y * 4 + dy)) \<longleftrightarrow> pattern bj \<noteq> 0"
    unfolding bj_def by (rule j(4))
  have b1: "y < height (convertImageDataToSemiGraphic imageData) \<and>
     x < width (convertImageDataToSemiGraphic imageData)
       \<longrightarrow> blocks (convertImageDataToSemiGraphic imageData) ! y ! x = bb"
    unfolding bb_def by (simp add: convertImageDataToSemiGraphic_block)
  have b2: "\<forall>dx<2. \<forall>dy<4. bit (pattern bb) (if dx = 0 then dy else 4 + dy)
       \<longleftrightarrow> opaqueAt imageData (x * 2 + dx) (y * 4 + dy) \<and>
           nearestAt imageData (x * 2 + dx) (y * 4 + dy) \<noteq> 0"
    unfolding bb_def by (rule b(1))
  have b3: "(\<forall>dx<2. \<forall>dy<4. opaqueAt imageData (x * 2 + dx) (y * 4 + dy) \<longrightarrow>
        nearestAt imageData (x * 2 + dx) (y * 4 + dy) = 0) \<longrightarrow> pattern bb = 0 \<and> colorCode bb = 0"
    unfolding bb_def by (rule b(3))
  have j5: "(\<forall>dx<2. \<forall>dy<4. \<not> jimpOpaqueAt img (x * 2 + dx) (y * 4 + dy)) \<longrightarrow>
        pattern bj = 0 \<and> colorCode bj = 0"
  proof
    assume h: "\<forall>dx<2. \<forall>dy<4. \<not> jimpOpaqueAt img (x * 2 + dx) (y * 4 + dy)"
    then have "\<not> (\<exists>dx<2. \<exists>dy<4. jimpOpaqueAt img (x * 2 + dx) (y * 4 + dy))" by simp
    with j4 have p: "pattern bj = 0" by simp
    from h have "\<forall>dx<2. \<forall>dy<4. jimpOpaqueAt img (x * 2 + dx) (y * 4 + dy) \<longrightarrow>
        jimpNearestAt img (x * 2 + dx) (y * 4 + dy) = 0" by simp
    with j3 have "colorCode bj = 0" by (rule mp)
    with p show "pattern bj = 0 \<and> colorCode bj = 0" by simp
  qed
  have b4: "(\<forall>dx<2. \<forall>dy<4. \<not> opaqueAt imageData (x * 2 + dx) (y * 4 + dy)) \<longrightarrow>
        pattern bb = 0 \<and> colorCode bb = 0"
  proof
    assume h: "\<forall>dx<2. \<forall>dy<4. \<not> opaqueAt imageData (x * 2 + dx) (y * 4 + dy)"
    then have "\<forall>dx<2. \<forall>dy<4. opaqueAt imageData (x * 2 + dx) (y * 4 + dy) \<longrightarrow>
        nearestAt imageData (x * 2 + dx) (y * 4 + dy) = 0" by simp
    with b3 show "pattern bb = 0 \<and> colorCode bb = 0" by (rule mp)
  qed
  from j1 j2 j3 j4 j5 b1 b2 b3 b4 show ?thesis by (intro conjI)
qed

theorem pattern_bits_of_both_paths_witness:
  "pattern (generateSemiGraphicBlockFromJimp 0 0 opaqueBlackDot
      (bitmapWidth opaqueBlackDot) (bitmapHeight opaqueBlackDot)) \<noteq> 0 \<and>
   colorCode (generateSemiGraphicBlockFromJimp 0 0 opaqueBlackDot
      (bitmapWidth opaqueBlackDot) (bitmapHeight opaqueBlackDot)) = 0 \<and>
   pattern (imageDataBlock opaqueBlackBlock 0 0) = 0 \<and>
   colorCode (imageDataBlock opaqueBlackBlock 0 0) = 0"
proof -
  note t = pattern_bits_of_both_paths [OF opaqueBlackBlock_wf, where x = 0 and y = 0 and img = opaqueBlackDot]
  have o: "\<exists>dx<2. \<exists>dy<4. jimpOpaqueAt opaqueBlackDot (0 * 2 + dx) (0 * 4 + dy)"
    by (rule exI [of _ 0], rule conjI, simp, rule exI [of _ 0], rule conjI, simp,
        rule opaqueBlackDot_opaque)
  have n: "\<forall>dx<2. \<forall>dy<4. jimpOpaqueAt opaqueBlackDot (0 * 2 + dx) (0 * 4 + dy) \<longrightarrow>
        jimpNearestAt opaqueBlackDot (0 * 2 + dx) (0 * 4 + dy) = 0"
    by (intro allI impI) (rule opaqueBlackDot_nearest)
  from t have "(\<exists>dx<2. \<exists>dy<4. jimpOpaqueAt opaqueBlackDot (0 * 2 + dx) (0 * 4 + dy)) \<longleftrightarrow>
      pattern (generateSemiGraphicBlockFromJimp 0 0 opaqueBlackDot
        (bitmapWidth opaqueBlackDot) (bitmapHeight opaqueBlackDot)) \<noteq> 0" by (elim conjE)
  with o have a: "pattern (generateSemiGraphicBlockFromJimp 0 0 opaqueBlackDot
      (bitmapWidth opaqueBlackDot) (bitmapHeight opaqueBlackDot)) \<noteq> 0" by (rule iffD1 [rotated])
  from t have "(\<forall>dx<2. \<forall>dy<4. jimpOpaqueAt opaqueBlackDot (0 * 2 + dx) (0 * 4 + dy) \<longrightarrow>
        jimpNearestAt opaqueBlackDot (0 * 2 + dx) (0 * 4 + dy) = 0) \<longrightarrow>
      colorCode (generateSemiGraphicBlockFromJimp 0 0 opaqueBlackDot
        (bitmapWidth opaqueBlackDot) (bitmapHeight opaqueBlackDot)) = 0" by (elim conjE)
  from this n have b: "colorCode (generateSemiGraphicBlockFromJimp 0 0 opaqueBlackDot
      (bitmapWidth opaqueBlackDot) (bitmapHeight opaqueBlackDot)) = 0" by (rule mp)
  from t have "(\<forall>dx<2. \<forall>dy<4. opaqueAt opaqueBlackBlock (0 * 2 + dx) (0 * 4 + dy) \<longrightarrow>
        nearestAt opaqueBlackBlock (0 * 2 + dx) (0 * 4 + dy) = 0) \<longrightarrow>
      pattern (imageDataBlock opaqueBlackBlock 0 0) = 0 \<and>
      colorCode (imageDataBlock opaqueBlackBlock 0 0) = 0" by (elim conjE)
  from this opaqueBlackBlock_all_black
  have c: "pattern (imageDataBlock opaqueBlackBlock 0 0) = 0 \<and>
      colorCode (imageDataBlock opaqueBlackBlock 0 0) = 0" by (rule mp)
  from a b c show ?thesis by (intro conjI) simp_all
qed

subsection \<open>The buffer written by the command-line loader\<close>

lemma length_concat_uniform:
  "(\<And>xs. xs \<in> set xss \<Longrightarrow> length xs = n) \<Longrightarrow> length (concat xss) = length xss * n"
  by (induction xss) simp_all

lemma nth_concat_uniform:
  "(\<And>xs. xs \<in> set xss \<Longrightarrow> length xs = n) \<Longrightarrow> i < length xss \<Longrightarrow> j < n \<Longrightarrow>
     concat xss ! (i * n + j) = xss ! i ! j"
proof (induction xss arbitrary: i)
  case Nil
  then show ?case by simp
next
  case (Cons a xss)
  have la: "length a = n" using Cons.prems(1) by simp
  show ?case
  proof (cases i)
    case 0
    then show ?thesis using la Cons.prems(3) by (simp add: nth_append)
  next
    case (Suc k)
    have "concat (a # xss) ! (Suc k * n + j) = concat xss ! (k * n + j)"
      using la by (simp add: nth_append)
    also have "\<dots> = xss ! k ! j"
      using Cons.prems Suc by (intro Cons.IH) simp_all
    finally show ?thesis using Suc by simp
  qed
qed

lemma length_pixelBytes: "length (pixelBytes img x y) = 4"
  by (simp add: pixelBytes_def Let_def)

lemma length_row_bytes:
  "length (concat (map (\<lambda>x. pixelBytes img x y) [0..<w])) = w * 4"
proof -
  have "length (concat (map (\<lambda>x. pixelBytes img x y) [0..<w]))
      = length (map (\<lambda>x. pixelBytes img x y) [0..<w]) * 4"
    by (rule length_concat_uniform) (auto simp: length_pixelBytes)
  then show ?thesis by simp
qed

lemma nth_row_bytes:
  assumes "px < w" and "k < 4"
  shows "concat (map (\<lambda>x. pixelBytes img x y) [0..<w]) ! (px * 4 + k) = pixelBytes img px y ! k"
proof -
  have "concat (map (\<lambda>x. pixelBytes img x y) [0..<w]) ! (px * 4 + k)
      = map (\<lambda>x. pixelBytes img x y) [0..<w] ! px ! k"
    using assms by (intro nth_concat_uniform) (auto simp: length_pixelBytes)
  then show ?thesis using assms by simp
qed

lemma extractImageData_dims:
  "pixelWidth (extractImageData img) = bitmapWidth img"
  "pixelHeight (extractImageData img) = bitmapHeight img"
  by (simp_all add: extractImageData_def Let_def)

lemma extractImageData_wf: "wellFormedBuffer (extractImageData img)"
proof -
  have "length (concat (map (\<lambda>y. concat (map (\<lambda>x. pixelBytes img x y) [0..<bitmapWidth img]))
          [0..<bitmapHeight img])) = length (map (\<lambda>y. concat (map (\<lambda>x. pixelBytes img x y) [0..<bitmapWidth img]))
          [0..<bitmapHeight img]) * (bitmapWidth img * 4)"
    by (rule length_concat_uniform) (auto simp: length_row_bytes)
  then show ?thesis
    by (simp add: wellFormedBuffer_def extractImageData_def Let_def)
qed

lemma extractImageData_channel:
  assumes "px < bitmapWidth img" and "py < bitmapHeight img" and "k < 4"
  shows "channelAt (extractImageData img) px py k = pixelBytes img px py ! k"
proof -
  let ?rows = "map (\<lambda>y. concat (map (\<lambda>x. pixelBytes img x y) [0..<bitmapWidth img]))
          [0..<bitmapHeight img]"
  have idx: "(py * bitmapWidth img + px) * 4 + k = py * (bitmapWidth img * 4) + (px * 4 + k)"
    by (simp add: algebra_simps)
  have lt: "px * 4 + k < bitmapWidth img * 4" using assms(1,3) by arith
  have "concat ?rows ! (py * (bitmapWidth img * 4) + (px * 4 + k)) = ?rows ! py ! (px * 4 + k)"
    using assms(2) lt by (intro nth_concat_uniform) (auto simp: length_row_bytes)
  also have "\<dots> = concat (map (\<lambda>x. pixelBytes img x py) [0..<bitmapWidth img]) ! (px * 4 + k)"
    using assms(2) by simp
  also have "\<dots> = pixelBytes img px py ! k" using assms(1,3) by (rule nth_row_bytes)
  finally show ?thesis
    unfolding channelAt_def extractImageData_dims idx
    by (simp add: extractImageData_def Let_def)
qed

lemma extractImageData_opaque:
  "opaqueAt (extractImageData img) px py \<longleftrightarrow> jimpOpaqueAt img px py"
proof (cases "px < bitmapWidth img \<and> py < bitmapHeight img")
  case False
  then show ?thesis by (auto simp: opaqueAt_def jimpOpaqueAt_def extractImageData_dims)
next
  case True
  then have "channelAt (extractImageData img) px py 3 = pixelBytes img px py ! 3"
    by (intro extractImageData_channel) simp_all
  then have ch: "channelAt (extractImageData img) px py 3
      = (ucast (getPixelColor img px py AND 0xFF) :: 8 word)"
    by (simp add: pixelBytes_def Let_def)
  have "128 \<le> (ucast (getPixelColor img px py AND 0xFF) :: 8 word)
      \<longleftrightarrow> \<not> (ucast (getPixelColor img px py AND 0xFF) :: 8 word) < 128"
    by (simp add: not_less)
  also have "\<dots> \<longleftrightarrow> 127 < getPixelColor img px py AND 0xFF"
    by (simp only: low_byte_below_128 not_not)
  finally show ?thesis
    using True by (simp add: opaqueAt_def jimpOpaqueAt_def extractImageData_dims ch)
qed

lemma extractImageData_nearest:
  assumes "px < bitmapWidth img" and "py < bitmapHeight img"
  shows "nearestAt (extractImageData img) px py = jimpNearestAt img px py"
proof -
  have c0: "channelAt (extractImageData img) px py 0
      = (ucast (drop_bit 24 (getPixelColor img px py) AND 0xFF) :: 8 word)"
    using extractImageData_channel [OF assms, of 0] by (simp add: pixelBytes_def Let_def)
  have c1: "channelAt (extractImageData img) px py 1
      = (ucast (drop_bit 16 (getPixelColor img px py) AND 0xFF) :: 8 word)"
    using extractImageData_channel [OF assms, of 1] by (simp add: pixelBytes_def Let_def)
  have c2: "channelAt (extractImageData img) px py 2
      = (ucast (drop_bit 8 (getPixelColor img px py) AND 0xFF) :: 8 word)"
    using extractImageData_channel [OF assms, of 2] by (simp add: pixelBytes_def Let_def)
  show ?thesis
    unfolding nearestAt_def jimpNearestAt_def c0 c1 c2 uint_ucast_low_byte ..
qed

lemma extractImageData_vote:
  "(if opaqueAt (extractImageData img) px py then nearestAt (extractImageData img) px py else 0)
    = (if jimpOpaqueAt img px py then jimpNearestAt img px py else 0)"
proof (cases "jimpOpaqueAt img px py")
  case True
  then have "px < bitmapWidth img" "py < bitmapHeight img" by (simp_all add: jimpOpaqueAt_def)
  then have "nearestAt (extractImageData img) px py = jimpNearestAt img px py"
    by (rule extractImageData_nearest)
  with True show ?thesis by (simp add: extractImageData_opaque)
next
  case False
  then show ?thesis by (simp add: extractImageData_opaque)
qed

lemma extractImageData_dot:
  "(opaqueAt (extractImageData img) px py \<and> nearestAt (extractImageData img) px py \<noteq> 0)
    = (jimpOpaqueAt img px py \<and> jimpNearestAt img px py \<noteq> 0)"
proof (cases "jimpOpaqueAt img px py")
  case True
  then have "px < bitmapWidth img" "py < bitmapHeight img" by (simp_all add: jimpOpaqueAt_def)
  then have "nearestAt (extractImageData img) px py = jimpNearestAt img px py"
    by (rule extractImageData_nearest)
  with True show ?thesis by (simp add: extractImageData_opaque)
next
  case False
  then show ?thesis by (simp add: extractImageData_opaque)
qed

subsection \<open>Votes for black do not count\<close>

lemma frequency_fold_nonzero:
  "foldl (\<lambda>frequency color. if color \<noteq> 0 then countVote color frequency else frequency) acc colors
    = foldl (\<lambda>frequency color. if color \<noteq> 0 then countVote color frequency else frequency) acc
        (filter (\<lambda>c. c \<noteq> 0) colors)"
  by (induction colors arbitrary: acc) simp_all

lemma frequencyOf_nonzero: "frequencyOf colors = frequencyOf (filter (\<lambda>c. c \<noteq> 0) colors)"
  unfolding frequencyOf_def by (rule frequency_fold_nonzero)

lemma getMostFrequentColor_nonzero:
  "getMostFrequentColor colors = getMostFrequentColor (filter (\<lambda>c. c \<noteq> 0) colors)"
proof (cases "filter (\<lambda>c. c \<noteq> 0) colors = []")
  case True
  then have "frequencyOf colors = []"
    using frequencyOf_nonzero [of colors] by (simp add: frequencyOf_def)
  with True show ?thesis by (simp add: getMostFrequentColor_def)
next
  case False
  then have "colors \<noteq> []" by auto
  with False show ?thesis
    using frequencyOf_nonzero [of colors] by (simp add: getMostFrequentColor_def)
qed

lemma nonzero_vote_step:
  "filter (\<lambda>c. c \<noteq> 0) xs = filter (\<lambda>c. c \<noteq> 0) ys \<Longrightarrow>
   filter (\<lambda>c. c \<noteq> 0) ((if p then n else 0) # xs)
     = filter (\<lambda>c. c \<noteq> (0::nat)) ((if p then [n] else []) @ ys)"
  by simp

lemma nonzero_vote_last:
  "filter (\<lambda>c. c \<noteq> 0) [if p then n else 0] = filter (\<lambda>c. c \<noteq> (0::nat)) (if p then [n] else [])"
  by simp

lemma votes_agree:
  "getMostFrequentColor
     [if p1 then n1 else 0, if p2 then n2 else 0, if p3 then n3 else 0, if p4 then n4 else 0,
      if p5 then n5 else 0, if p6 then n6 else 0, if p7 then n7 else 0, if p8 then n8 else 0]
   = getMostFrequentColor
     ((if p1 then [n1] else []) @ (if p2 then [n2] else []) @ (if p3 then [n3] else []) @
      (if p4 then [n4] else []) @ (if p5 then [n5] else []) @ (if p6 then [n6] else []) @
      (if p7 then [n7] else []) @ (if p8 then [n8] else []))"
proof -
  have "filter (\<lambda>c. c \<noteq> 0)
     [if p1 then n1 else 0, if p2 then n2 else 0, if p3 then n3 else 0, if p4 then n4 else 0,
      if p5 then n5 else 0, if p6 then n6 else 0, if p7 then n7 else 0, if p8 then n8 else 0]
   = filter (\<lambda>c. c \<noteq> 0)
     ((if p1 then [n1] else []) @ (if p2 then [n2] else []) @ (if p3 then [n3] else []) @
      (if p4 then [n4] else []) @ (if p5 then [n5] else []) @ (if p6 then [n6] else []) @
      (if p7 then [n7] else []) @ (if p8 then [n8] else []))"
    by (rule nonzero_vote_step)+ (rule nonzero_vote_last)
  then show ?thesis
    by (subst getMostFrequentColor_nonzero, subst (2) getMostFrequentColor_nonzero) simp
qed


subsection \<open>The two paths on the same pixels\<close>

lemma imageDataBlock_extractImageData:
  fixes x y :: nat and img :: JimpImage
  defines "opq \<equiv> \<lambda>dx dy. jimpOpaqueAt img (x * 2 + dx) (y * 4 + dy)"
  defines "nr \<equiv> \<lambda>dx dy. jimpNearestAt img (x * 2 + dx) (y * 4 + dy)"
  shows "imageDataBlock (extractImageData img) x y =
    \<lparr>pattern =
       (if opq 0 0 \<and> nr 0 0 \<noteq> 0 then 1 else 0) OR (if opq 1 0 \<and> nr 1 0 \<noteq> 0 then 16 else 0) OR
       (if opq 0 1 \<and> nr 0 1 \<noteq> 0 then 2 else 0) OR (if opq 1 1 \<and> nr 1 1 \<noteq> 0 then 32 else 0) OR
       (if opq 0 2 \<and> nr 0 2 \<noteq> 0 then 4 else 0) OR (if opq 1 2 \<and> nr 1 2 \<noteq> 0 then 64 else 0) OR
       (if opq 0 3 \<and> nr 0 3 \<noteq> 0 then 8 else 0) OR (if opq 1 3 \<and> nr 1 3 \<noteq> 0 then 128 else 0),
     colorCode = getMostFrequentColor
       [if opq 0 0 then nr 0 0 else 0, if opq 1 0 then nr 1 0 else 0,
        if opq 0 1 then nr 0 1 else 0, if opq 1 1 then nr 1 1 else 0,
        if opq 0 2 then nr 0 2 else 0, if opq 1 2 then nr 1 2 else 0,
        if opq 0 3 then nr 0 3 else 0, if opq 1 3 then nr 1 3 else 0]\<rparr>"
  unfolding opq_def nr_def imageDataBlock_eq [OF extractImageData_wf]
    extractImageData_dot extractImageData_vote ..

lemma blocks_of_both_paths:
  fixes x y :: nat and img :: JimpImage
  defines "bj \<equiv> generateSemiGraphicBlockFromJimp x y img (bitmapWidth img) (bitmapHeight img)"
  defines "bb \<equiv> imageDataBlock (extractImageData img) x y"
  shows "colorCode bj = colorCode bb"
    and "\<forall>dx<2. \<forall>dy<4. bit (pattern bb) (if dx = 0 then dy else 4 + dy) \<longleftrightarrow>
           bit (pattern bj) (if dx = 0 then dy else 4 + dy) \<and>
           jimpNearestAt img (x * 2 + dx) (y * 4 + dy) \<noteq> 0"
    and "pattern bj < 256" and "pattern bb < 256"
    and "(\<forall>px py. jimpOpaqueAt img px py \<longrightarrow> jimpNearestAt img px py \<noteq> 0) \<longrightarrow> bj = bb"
proof -
  show "colorCode bj = colorCode bb"
    unfolding bj_def bb_def generateSemiGraphicBlockFromJimp_eq imageDataBlock_extractImageData
    by (simp only: SemiGraphicBlock.select_convs votes_agree)
  show "\<forall>dx<2. \<forall>dy<4. bit (pattern bb) (if dx = 0 then dy else 4 + dy) \<longleftrightarrow>
           bit (pattern bj) (if dx = 0 then dy else 4 + dy) \<and>
           jimpNearestAt img (x * 2 + dx) (y * 4 + dy) \<noteq> 0"
  proof (intro allI impI)
    fix dx dy :: nat
    assume dx: "dx < 2" and dy: "dy < 4"
    have b: "bit (pattern bb) (if dx = 0 then dy else 4 + dy) \<longleftrightarrow>
        opaqueAt (extractImageData img) (x * 2 + dx) (y * 4 + dy) \<and>
        nearestAt (extractImageData img) (x * 2 + dx) (y * 4 + dy) \<noteq> 0"
      unfolding bb_def
      by (rule buffer_block_props(1) [OF extractImageData_wf, rule_format, OF dx dy])
    have j: "bit (pattern bj) (if dx = 0 then dy else 4 + dy) \<longleftrightarrow>
        jimpOpaqueAt img (x * 2 + dx) (y * 4 + dy)"
      unfolding bj_def by (rule jimp_block_props(1) [rule_format, OF dx dy])
    show "bit (pattern bb) (if dx = 0 then dy else 4 + dy) \<longleftrightarrow>
           bit (pattern bj) (if dx = 0 then dy else 4 + dy) \<and>
           jimpNearestAt img (x * 2 + dx) (y * 4 + dy) \<noteq> 0"
      by (simp only: b j extractImageData_dot)
  qed
  show "pattern bj < 256" unfolding bj_def by (rule jimp_block_props(2))
  show "pattern bb < 256" unfolding bb_def by (rule buffer_block_props(2) [OF extractImageData_wf])
  show "(\<forall>px py. jimpOpaqueAt img px py \<longrightarrow> jimpNearestAt img px py \<noteq> 0) \<longrightarrow> bj = bb"
  proof
    assume h: "\<forall>px py. jimpOpaqueAt img px py \<longrightarrow> jimpNearestAt img px py \<noteq> 0"
    have oq: "\<And>px py. (jimpOpaqueAt img px py \<and> jimpNearestAt img px py \<noteq> 0)
        = jimpOpaqueAt img px py"
      using h by auto
    show "bj = bb"
      unfolding bj_def bb_def generateSemiGraphicBlockFromJimp_eq imageDataBlock_extractImageData
        oq votes_agree ..
  qed
qed

lemma grids_of_both_paths:
  assumes "\<forall>px py. jimpOpaqueAt img px py \<longrightarrow> jimpNearestAt img px py \<noteq> 0"
  shows "convertJimpToSemiGraphic img = convertImageDataToSemiGraphic (extractImageData img)"
proof -
  have "generateSemiGraphicBlockFromJimp x y img (bitmapWidth img) (bitmapHeight img)
      = imageDataBlock (extractImageData img) x y" for x y
    using blocks_of_both_paths(5) [where x = x and y = y and img = img] assms by (rule mp)
  then show ?thesis
    by (simp add: convertJimpToSemiGraphic_def convertImageDataToSemiGraphic_def Let_def
        extractImageData_dims)
qed

subsection \<open>A single opaque black pixel and a single opaque white pixel\<close>

lemma opaqueBlackDot_dims: "bitmapWidth opaqueBlackDot = 1" "bitmapHeight opaqueBlackDot = 1"
  by (simp_all add: opaqueBlackDot_def)

lemma opaqueBlackDot_bytes:
  "extractImageData opaqueBlackDot = \<lparr>pixelWidth = 1, pixelHeight = 1, data = [0, 0, 0, 255]\<rparr>"
  by (simp add: extractImageData_def pixelBytes_def opaqueBlackDot_def opaqueBlackPixel_def Let_def)

lemma opaqueBlackDot_opaque_iff:
  "jimpOpaqueAt opaqueBlackDot px py \<longleftrightarrow> px = 0 \<and> py = 0"
  by (auto simp: jimpOpaqueAt_def opaqueBlackDot_def opaqueBlackPixel_def)

lemma opaqueBlackDot_jimp_block:
  "generateSemiGraphicBlockFromJimp 0 0 opaqueBlackDot
      (bitmapWidth opaqueBlackDot) (bitmapHeight opaqueBlackDot) = \<lparr>pattern = 1, colorCode = 0\<rparr>"
  unfolding generateSemiGraphicBlockFromJimp_eq
  by (simp add: opaqueBlackDot_opaque_iff opaqueBlackDot_nearest
      getMostFrequentColor_def frequencyOf_def)

lemma opaqueBlackDot_buffer_block:
  "imageDataBlock (extractImageData opaqueBlackDot) 0 0 = \<lparr>pattern = 0, colorCode = 0\<rparr>"
  unfolding imageDataBlock_extractImageData
  by (simp add: opaqueBlackDot_nearest getMostFrequentColor_def frequencyOf_def)

lemma opaqueBlackDot_jimp_grid:
  "convertJimpToSemiGraphic opaqueBlackDot =
     \<lparr>width = 1, height = 1, blocks = [[\<lparr>pattern = 1, colorCode = 0\<rparr>]]\<rparr>"
proof -
  have "convertJimpToSemiGraphic opaqueBlackDot =
     \<lparr>width = 1, height = 1, blocks = [[generateSemiGraphicBlockFromJimp 0 0 opaqueBlackDot
        (bitmapWidth opaqueBlackDot) (bitmapHeight opaqueBlackDot)]]\<rparr>"
    by (simp add: convertJimpToSemiGraphic_def Let_def ceilDiv_def opaqueBlackDot_dims)
  then show ?thesis by (simp only: opaqueBlackDot_jimp_block)
qed

lemma opaqueBlackDot_buffer_grid:
  "convertImageDataToSemiGraphic (extractImageData opaqueBlackDot) =
     \<lparr>width = 1, height = 1, blocks = [[\<lparr>pattern = 0, colorCode = 0\<rparr>]]\<rparr>"
proof -
  have "convertImageDataToSemiGraphic (extractImageData opaqueBlackDot) =
     \<lparr>width = 1, height = 1, blocks = [[imageDataBlock (extractImageData opaqueBlackDot) 0 0]]\<rparr>"
    by (simp add: convertImageDataToSemiGraphic_def Let_def ceilDiv_def extractImageData_dims
        opaqueBlackDot_dims)
  then show ?thesis by (simp only: opaqueBlackDot_buffer_block)
qed

lemma opaqueWhiteDot_nearest: "jimpNearestAt opaqueWhiteDot px py = 7"
  by (simp add: jimpNearestAt_def opaqueWhiteDot_def opaqueWhitePixel_def findNearestColor_white)

lemma opaqueWhiteDot_no_black:
  "\<forall>px py. jimpOpaqueAt opaqueWhiteDot px py \<longrightarrow> jimpNearestAt opaqueWhiteDot px py \<noteq> 0"
  by (simp add: opaqueWhiteDot_nearest)

lemma opaqueWhiteDot_shape:
  "height (convertJimpToSemiGraphic opaqueWhiteDot) = 1"
  "width (convertJimpToSemiGraphic opaqueWhiteDot) = 1"
  by (simp_all add: convertJimpToSemiGraphic_shape ceilDiv_def opaqueWhiteDot_def)

lemma dotProject_find:
  "find (\<lambda>res. resourceId res = ''dot'') (images dotProject)
     = Some \<lparr>resourceId = ''dot'', filename = ''dot.png''\<rparr>"
  by (simp add: dotProject_def)

text \<open>
  C2, as the claim states it, fails: for the image of a single opaque black pixel the
  file path gives the pattern 1 and the buffer path, on the bytes that the loader
  extracts from the same image, the pattern 0.
\<close>

theorem black_dot_counterexample:
  "convertImageFile (decodeAs opaqueBlackDot) ''dot.png'' =
     Some \<lparr>width = 1, height = 1, blocks = [[\<lparr>pattern = 1, colorCode = 0\<rparr>]]\<rparr> \<and>
   convertImageFromProject (decodeAs opaqueBlackDot) dotProject ''dot'' =
     Some \<lparr>width = 1, height = 1, blocks = [[\<lparr>pattern = 1, colorCode = 0\<rparr>]]\<rparr> \<and>
   loadImage anyFile (decodeAs opaqueBlackDot) ''dot.png'' =
     Some \<lparr>pixelWidth = 1, pixelHeight = 1, data = [0, 0, 0, 255]\<rparr> \<and>
   convertImageToSemiGraphic
       (MockImageElement \<lparr>pixelWidth = 1, pixelHeight = 1, data = [0, 0, 0, 255]\<rparr>) =
     Inr \<lparr>width = 1, height = 1, blocks = [[\<lparr>pattern = 0, colorCode = 0\<rparr>]]\<rparr>"
proof -
  have a: "convertImageFile (decodeAs opaqueBlackDot) ''dot.png'' =
     Some \<lparr>width = 1, height = 1, blocks = [[\<lparr>pattern = 1, colorCode = 0\<rparr>]]\<rparr>"
    by (simp add: convertImageFile_def decodeAs_def opaqueBlackDot_jimp_grid)
  have b: "convertImageFromProject (decodeAs opaqueBlackDot) dotProject ''dot'' =
     Some \<lparr>width = 1, height = 1, blocks = [[\<lparr>pattern = 1, colorCode = 0\<rparr>]]\<rparr>"
    by (simp add: convertImageFromProject_def dotProject_find decodeAs_def opaqueBlackDot_jimp_grid)
  have c: "loadImage anyFile (decodeAs opaqueBlackDot) ''dot.png'' =
     Some \<lparr>pixelWidth = 1, pixelHeight = 1, data = [0, 0, 0, 255]\<rparr>"
    by (simp add: loadImage_def anyFile_def decodeAs_def opaqueBlackDot_bytes)
  have d: "convertImageToSemiGraphic
       (MockImageElement \<lparr>pixelWidth = 1, pixelHeight = 1, data = [0, 0, 0, 255]\<rparr>) =
     Inr \<lparr>width = 1, height = 1, blocks = [[\<lparr>pattern = 0, colorCode = 0\<rparr>]]\<rparr>"
    using opaqueBlackDot_buffer_grid unfolding opaqueBlackDot_bytes
    by (simp add: convertImageToSemiGraphic_def)
  from a b c d show ?thesis by (intro conjI)
qed

text \<open>
  C2, amended. \<open>convertImageFile\<close> and \<open>convertImageFromProject\<close> return the grid of the
  decoded-image path; the loader hands \<open>convertImageToSemiGraphic\<close> the bytes of the same
  decoded image, which it converts on the buffer path. The two grids have the same
  dimensions and shape, and at every (row, column) the same colour code; a bit of the
  buffer path's pattern is set exactly when the bit of the decoded-image path's pattern
  is set and the nearest palette colour of the pixel is not black. The grids are
  identical when no opaque pixel of the image is nearest to black.
\<close>

theorem entry_points_agree_up_to_black:
  fixes img :: JimpImage
  defines "viaJimp \<equiv> convertJimpToSemiGraphic img"
  defines "viaBuffer \<equiv> convertImageDataToSemiGraphic (extractImageData img)"
  shows
   "(jimpRead imagePath = Some img \<longrightarrow> convertImageFile jimpRead imagePath = Some viaJimp) \<and>
    (find (\<lambda>res. resourceId res = imageId) (images projectData) = Some imageResource \<and>
     jimpRead (filename imageResource) = Some img \<longrightarrow>
       convertImageFromProject jimpRead projectData imageId = Some viaJimp) \<and>
    (existsSync imagePath \<and> jimpRead imagePath = Some img \<longrightarrow>
       loadImage existsSync jimpRead imagePath = Some (extractImageData img)) \<and>
    convertImageToSemiGraphic (MockImageElement (extractImageData img)) = Inr viaBuffer \<and>
    width viaJimp = width viaBuffer \<and> height viaJimp = height viaBuffer \<and>
    rectangular viaJimp \<and> rectangular viaBuffer \<and>
    (\<forall>y<height viaJimp. \<forall>x<width viaJimp.
       colorCode (blocks viaJimp ! y ! x) = colorCode (blocks viaBuffer ! y ! x) \<and>
       pattern (blocks viaJimp ! y ! x) < 256 \<and> pattern (blocks viaBuffer ! y ! x) < 256 \<and>
       (\<forall>dx<2. \<forall>dy<4.
          bit (pattern (blocks viaBuffer ! y ! x)) (if dx = 0 then dy else 4 + dy) \<longleftrightarrow>
            bit (pattern (blocks viaJimp ! y ! x)) (if dx = 0 then dy else 4 + dy) \<and>
            jimpNearestAt img (x * 2 + dx) (y * 4 + dy) \<noteq> 0)) \<and>
    ((\<forall>px py. jimpOpaqueAt img px py \<longrightarrow> jimpNearestAt img px py \<noteq> 0) \<longrightarrow>
       viaJimp = viaBuffer)"
proof -
  have e1: "jimpRead imagePath = Some img \<longrightarrow> convertImageFile jimpRead imagePath = Some viaJimp"
    by (simp add: convertImageFile_def viaJimp_def)
  have e2: "find (\<lambda>res. resourceId res = imageId) (images projectData) = Some imageResource \<and>
     jimpRead (filename imageResource) = Some img \<longrightarrow>
       convertImageFromProject jimpRead projectData imageId = Some viaJimp"
    by (simp add: convertImageFromProject_def viaJimp_def)
  have e3: "existsSync imagePath \<and> jimpRead imagePath = Some img \<longrightarrow>
       loadImage existsSync jimpRead imagePath = Some (extractImageData img)"
    by (simp add: loadImage_def)
  have e4: "convertImageToSemiGraphic (MockImageElement (extractImageData img)) = Inr viaBuffer"
    by (simp add: convertImageToSemiGraphic_def viaBuffer_def)
  have w: "width viaJimp = width viaBuffer"
    unfolding viaJimp_def viaBuffer_def
    by (simp only: convertJimpToSemiGraphic_shape convertImageDataToSemiGraphic_shape
        extractImageData_dims)
  have h: "height viaJimp = height viaBuffer"
    unfolding viaJimp_def viaBuffer_def
    by (simp only: convertJimpToSemiGraphic_shape convertImageDataToSemiGraphic_shape
        extractImageData_dims)
  have r1: "rectangular viaJimp" unfolding viaJimp_def by (rule convertJimpToSemiGraphic_shape(3))
  have r2: "rectangular viaBuffer"
    unfolding viaBuffer_def by (rule convertImageDataToSemiGraphic_shape(3))
  have blk: "\<forall>y<height viaJimp. \<forall>x<width viaJimp.
       colorCode (blocks viaJimp ! y ! x) = colorCode (blocks viaBuffer ! y ! x) \<and>
       pattern (blocks viaJimp ! y ! x) < 256 \<and> pattern (blocks viaBuffer ! y ! x) < 256 \<and>
       (\<forall>dx<2. \<forall>dy<4.
          bit (pattern (blocks viaBuffer ! y ! x)) (if dx = 0 then dy else 4 + dy) \<longleftrightarrow>
            bit (pattern (blocks viaJimp ! y ! x)) (if dx = 0 then dy else 4 + dy) \<and>
            jimpNearestAt img (x * 2 + dx) (y * 4 + dy) \<noteq> 0)"
  proof (intro allI impI)
    fix y x
    assume y: "y < height viaJimp" and x: "x < width viaJimp"
    have bj: "blocks viaJimp ! y ! x
        = generateSemiGraphicBlockFromJimp x y img (bitmapWidth img) (bitmapHeight img)"
      using y x unfolding viaJimp_def by (rule convertJimpToSemiGraphic_block)
    from y x have "y < height viaBuffer" "x < width viaBuffer" by (simp_all only: w h)
    then have bb: "blocks viaBuffer ! y ! x = imageDataBlock (extractImageData img) x y"
      unfolding viaBuffer_def by (rule convertImageDataToSemiGraphic_block)
    note p = blocks_of_both_paths [where x = x and y = y and img = img]
    show "colorCode (blocks viaJimp ! y ! x) = colorCode (blocks viaBuffer ! y ! x) \<and>
       pattern (blocks viaJimp ! y ! x) < 256 \<and> pattern (blocks viaBuffer ! y ! x) < 256 \<and>
       (\<forall>dx<2. \<forall>dy<4.
          bit (pattern (blocks viaBuffer ! y ! x)) (if dx = 0 then dy else 4 + dy) \<longleftrightarrow>
            bit (pattern (blocks viaJimp ! y ! x)) (if dx = 0 then dy else 4 + dy) \<and>
            jimpNearestAt img (x * 2 + dx) (y * 4 + dy) \<noteq> 0)"
      unfolding bj bb by (intro conjI p(1) p(3) p(4) p(2))
  qed
  have eq: "(\<forall>px py. jimpOpaqueAt img px py \<longrightarrow> jimpNearestAt img px py \<noteq> 0) \<longrightarrow>
       viaJimp = viaBuffer"
    unfolding viaJimp_def viaBuffer_def by (rule impI) (rule grids_of_both_paths)
  from e1 e2 e3 e4 w h r1 r2 blk eq show ?thesis by (intro conjI)
qed

theorem entry_points_agree_up_to_black_witness:
  "convertImageFile (decodeAs opaqueWhiteDot) ''dot.png''
     = Some (convertJimpToSemiGraphic opaqueWhiteDot) \<and>
   convertImageFromProject (decodeAs opaqueWhiteDot) dotProject ''dot''
     = Some (convertJimpToSemiGraphic opaqueWhiteDot) \<and>
   loadImage anyFile (decodeAs opaqueWhiteDot) ''dot.png''
     = Some (extractImageData opaqueWhiteDot) \<and>
   colorCode (blocks (convertJimpToSemiGraphic opaqueWhiteDot) ! 0 ! 0)
     = colorCode (blocks (convertImageDataToSemiGraphic (extractImageData opaqueWhiteDot)) ! 0 ! 0) \<and>
   convertJimpToSemiGraphic opaqueWhiteDot
     = convertImageDataToSemiGraphic (extractImageData opaqueWhiteDot)"
proof -
  note t = entry_points_agree_up_to_black [where img = opaqueWhiteDot
      and jimpRead = "decodeAs opaqueWhiteDot" and imagePath = "''dot.png''"
      and imageId = "''dot''" and projectData = dotProject
      and imageResource = "\<lparr>resourceId = ''dot'', filename = ''dot.png''\<rparr>"
      and existsSync = anyFile]
  have rd: "decodeAs opaqueWhiteDot ''dot.png'' = Some opaqueWhiteDot" by (simp add: decodeAs_def)
  have rf: "decodeAs opaqueWhiteDot (filename \<lparr>resourceId = ''dot'', filename = ''dot.png''\<rparr>)
      = Some opaqueWhiteDot" by (simp add: decodeAs_def)
  have ex: "anyFile ''dot.png''" by (simp add: anyFile_def)
  from t have "decodeAs opaqueWhiteDot ''dot.png'' = Some opaqueWhiteDot \<longrightarrow>
      convertImageFile (decodeAs opaqueWhiteDot) ''dot.png''
        = Some (convertJimpToSemiGraphic opaqueWhiteDot)" by (elim conjE)
  from this rd have a: "convertImageFile (decodeAs opaqueWhiteDot) ''dot.png''
        = Some (convertJimpToSemiGraphic opaqueWhiteDot)" by (rule mp)
  from t have "find (\<lambda>res. resourceId res = ''dot'') (images dotProject)
        = Some \<lparr>resourceId = ''dot'', filename = ''dot.png''\<rparr> \<and>
      decodeAs opaqueWhiteDot (filename \<lparr>resourceId = ''dot'', filename = ''dot.png''\<rparr>)
        = Some opaqueWhiteDot \<longrightarrow>
      convertImageFromProject (decodeAs opaqueWhiteDot) dotProject ''dot''
        = Some (convertJimpToSemiGraphic opaqueWhiteDot)" by (elim conjE)
  from this conjI [OF dotProject_find rf]
  have b: "convertImageFromProject (decodeAs opaqueWhiteDot) dotProject ''dot''
        = Some (convertJimpToSemiGraphic opaqueWhiteDot)" by (rule mp)
  from t have "anyFile ''dot.png'' \<and> decodeAs opaqueWhiteDot ''dot.png'' = Some opaqueWhiteDot \<longrightarrow>
      loadImage anyFile (decodeAs opaqueWhiteDot) ''dot.png''
        = Some (extractImageData opaqueWhiteDot)" by (elim conjE)
  from this conjI [OF ex rd]
  have c: "loadImage anyFile (decodeAs opaqueWhiteDot) ''dot.png''
        = Some (extractImageData opaqueWhiteDot)" by (rule mp)
  from t have q: "\<forall>y<height (convertJimpToSemiGraphic opaqueWhiteDot).
      \<forall>x<width (convertJimpToSemiGraphic opaqueWhiteDot).
       colorCode (blocks (convertJimpToSemiGraphic opaqueWhiteDot) ! y ! x)
         = colorCode (blocks (convertImageDataToSemiGraphic (extractImageData opaqueWhiteDot)) ! y ! x) \<and>
       pattern (blocks (convertJimpToSemiGraphic opaqueWhiteDot) ! y ! x) < 256 \<and>
       pattern (blocks (convertImageDataToSemiGraphic (extractImageData opaqueWhiteDot)) ! y ! x) < 256 \<and>
       (\<forall>dx<2. \<forall>dy<4.
          bit (pattern (blocks (convertImageDataToSemiGraphic (extractImageData opaqueWhiteDot)) ! y ! x))
              (if dx = 0 then dy else 4 + dy) \<longleftrightarrow>
            bit (pattern (blocks (convertJimpToSemiGraphic opaqueWhiteDot) ! y ! x))
              (if dx = 0 then dy else 4 + dy) \<and>
            jimpNearestAt opaqueWhiteDot (x * 2 + dx) (y * 4 + dy) \<noteq> 0)" by (elim conjE)
  have y0: "0 < height (convertJimpToSemiGraphic opaqueWhiteDot)"
    and x0: "0 < width (convertJimpToSemiGraphic opaqueWhiteDot)"
    by (simp_all add: opaqueWhiteDot_shape)
  from q [rule_format, OF y0 x0]
  have d: "colorCode (blocks (convertJimpToSemiGraphic opaqueWhiteDot) ! 0 ! 0)
     = colorCode (blocks (convertImageDataToSemiGraphic (extractImageData opaqueWhiteDot)) ! 0 ! 0)"
    by (elim conjE)
  from t have "(\<forall>px py. jimpOpaqueAt opaqueWhiteDot px py \<longrightarrow>
        jimpNearestAt opaqueWhiteDot px py \<noteq> 0) \<longrightarrow>
      convertJimpToSemiGraphic opaqueWhiteDot
        = convertImageDataToSemiGraphic (extractImageData opaqueWhiteDot)" by (elim conjE)
  from this opaqueWhiteDot_no_black
  have e: "convertJimpToSemiGraphic opaqueWhiteDot
        = convertImageDataToSemiGraphic (extractImageData opaqueWhiteDot)" by (rule mp)
  from a b c d e show ?thesis by (intro conjI)
qed

end
